theory Spec2Isabelle
  imports Main
begin

section \<open>Timestamps, frames and sinks\<close>

text \<open>
  \<^verbatim>\<open>base::TimeDelta\<close> and \<^verbatim>\<open>DecodeTimestamp\<close> are microsecond counts. Both are modelled as
  \<open>int\<close>; the sentinel \<^verbatim>\<open>kNoTimestamp\<close> ("unset") is the least 64-bit value, as in
  \<^verbatim>\<open>media/base/timestamp_constants.h\<close>, which is not among the sources. No theorem below
  depends on the numeric value of the sentinel. Debug-only assertions (\<^verbatim>\<open>DCHECK\<close>) and log
  output are not modelled; the counters behind \<^verbatim>\<open>LIMITED_MEDIA_LOG\<close> are.
\<close>

definition kNoTimestamp :: int where
  "kNoTimestamp = - (2 ^ 63)"

definition kNoDecodeTimestamp :: int where
  "kNoDecodeTimestamp = kNoTimestamp"

datatype DemuxerStreamType = UNKNOWN | AUDIO | VIDEO | TEXT

text \<open>
  \<^verbatim>\<open>StreamParserBuffer\<close>: the fields read and written through the accessors used in
  \<^verbatim>\<open>frame_processor.cc\<close> and \<^verbatim>\<open>source_buffer_range_by_pts.cc\<close>. A preroll buffer attached by
  \<^verbatim>\<open>SetPrerollBuffer\<close> is kept as the attached buffer's own data.
\<close>

record BufferData =
  timestamp :: int
  GetDecodeTimestamp :: int
  duration :: int
  is_key_frame :: bool
  frame_type :: DemuxerStreamType
  track_id :: int
  data_size :: nat
  GetConfigId :: int
  end_of_stream :: bool
  discard_padding :: "int \<times> int"

record StreamParserBuffer = BufferData +
  preroll_buffer :: "BufferData option"

type_synonym BufferQueue = "StreamParserBuffer list"

text \<open>
  The sink of a track (\<^verbatim>\<open>ChunkDemuxerStream\<close>, not among the sources) is taken as a parameter:
  its declared type, its trimming capability, the answer of \<^verbatim>\<open>Append\<close> as a function of
  the calls received so far and of the batch, and the record of the calls received.
\<close>

datatype StreamEvent =
  AppendCall BufferQueue bool
  | OnStartOfCodedFrameGroup int

record ChunkDemuxerStream =
  stream_type :: DemuxerStreamType
  supports_partial_append_window_trimming :: bool
  append_answer :: "StreamEvent list \<Rightarrow> BufferQueue \<Rightarrow> bool"
  events :: "StreamEvent list"

definition Append :: "ChunkDemuxerStream \<Rightarrow> BufferQueue \<Rightarrow> bool \<times> ChunkDemuxerStream" where
  "Append st frames =
     (let result = append_answer st (events st) frames
      in (result, st\<lparr>events := events st @ [AppendCall frames result]\<rparr>))"

definition LIMITED_MEDIA_LOG :: "int \<Rightarrow> int \<Rightarrow> int" where
  \<comment> \<open>the counter of a rate-limited log line: it grows until it reaches the bound\<close>
  "LIMITED_MEDIA_LOG count max_count = (if count < max_count then count + 1 else count)"

definition kMaxDroppedPrerollWarnings :: int where "kMaxDroppedPrerollWarnings = 10"
definition kMaxDtsBeyondPtsWarnings :: int where "kMaxDtsBeyondPtsWarnings = 10"
definition kMaxAudioNonKeyframeWarnings :: int where "kMaxAudioNonKeyframeWarnings = 10"
definition kMaxNumKeyframeTimeGreaterThanDependantWarnings :: int where
  "kMaxNumKeyframeTimeGreaterThanDependantWarnings = 1"
definition kMaxMuxedSequenceModeWarnings :: int where "kMaxMuxedSequenceModeWarnings = 1"

section \<open>MseTrackBuffer\<close>

record MseTrackBuffer =
  last_decode_timestamp :: int
  last_processed_decode_timestamp :: int
  last_keyframe_presentation_timestamp :: int
  last_frame_duration :: int
  highest_presentation_timestamp :: int
  needs_random_access_point :: bool
  stream :: ChunkDemuxerStream
  processed_frames :: BufferQueue
  num_keyframe_time_greater_than_dependant_warnings :: int

definition MseTrackBuffer_new :: "ChunkDemuxerStream \<Rightarrow> MseTrackBuffer" where
  "MseTrackBuffer_new st =
     \<lparr> last_decode_timestamp = kNoDecodeTimestamp,
       last_processed_decode_timestamp = 0,
       last_keyframe_presentation_timestamp = kNoTimestamp,
       last_frame_duration = kNoTimestamp,
       highest_presentation_timestamp = kNoTimestamp,
       needs_random_access_point = True,
       stream = st,
       processed_frames = [],
       num_keyframe_time_greater_than_dependant_warnings = 0 \<rparr>"

definition MseTrackBuffer_Reset :: "MseTrackBuffer \<Rightarrow> MseTrackBuffer" where
  "MseTrackBuffer_Reset tb =
     tb\<lparr> last_decode_timestamp := kNoDecodeTimestamp,
         last_frame_duration := kNoTimestamp,
         highest_presentation_timestamp := kNoTimestamp,
         needs_random_access_point := True,
         last_keyframe_presentation_timestamp := kNoTimestamp \<rparr>"

definition SetHighestPresentationTimestampIfIncreased ::
  "int \<Rightarrow> MseTrackBuffer \<Rightarrow> MseTrackBuffer" where
  "SetHighestPresentationTimestampIfIncreased ts tb =
     (if highest_presentation_timestamp tb = kNoTimestamp
         \<or> ts > highest_presentation_timestamp tb
      then tb\<lparr>highest_presentation_timestamp := ts\<rparr>
      else tb)"

definition EnqueueProcessedFrame :: "StreamParserBuffer \<Rightarrow> MseTrackBuffer \<Rightarrow> MseTrackBuffer" where
  "EnqueueProcessedFrame frame tb =
     (let tb1 =
        (if is_key_frame frame
         then tb\<lparr>last_keyframe_presentation_timestamp := timestamp frame\<rparr>
         else if timestamp frame < last_keyframe_presentation_timestamp tb
         then tb\<lparr>num_keyframe_time_greater_than_dependant_warnings :=
                   LIMITED_MEDIA_LOG (num_keyframe_time_greater_than_dependant_warnings tb)
                     kMaxNumKeyframeTimeGreaterThanDependantWarnings\<rparr>
         else tb)
      in tb1\<lparr> last_processed_decode_timestamp := GetDecodeTimestamp frame,
              processed_frames := processed_frames tb1 @ [frame] \<rparr>)"

definition MseTrackBuffer_FlushProcessedFrames :: "MseTrackBuffer \<Rightarrow> bool \<times> MseTrackBuffer" where
  "MseTrackBuffer_FlushProcessedFrames tb =
     (if processed_frames tb = [] then (True, tb)
      else (let (result, st) = Append (stream tb) (processed_frames tb)
            in (result, tb\<lparr>stream := st, processed_frames := []\<rparr>)))"

definition MseTrackBuffer_NotifyStartOfCodedFrameGroup ::
  "int \<Rightarrow> MseTrackBuffer \<Rightarrow> MseTrackBuffer" where
  "MseTrackBuffer_NotifyStartOfCodedFrameGroup start_time tb =
     tb\<lparr> last_keyframe_presentation_timestamp := kNoTimestamp,
         last_processed_decode_timestamp := start_time,
         stream := (stream tb)\<lparr>events := events (stream tb) @ [OnStartOfCodedFrameGroup start_time]\<rparr> \<rparr>"

section \<open>FrameProcessor\<close>

text \<open>
  The fields of \<^verbatim>\<open>FrameProcessor\<close> used by \<^verbatim>\<open>frame_processor.cc\<close>. \<^verbatim>\<open>track_buffers_\<close> is a
  \<^verbatim>\<open>std::map\<close> from track id to track buffer: an association list with distinct keys, walked
  in order by the loops over all tracks. The calls of \<^verbatim>\<open>update_duration_cb_\<close> are recorded in
  \<open>duration_updates\<close>.
\<close>

record FrameProcessor =
  track_buffers :: "(int \<times> MseTrackBuffer) list"
  sequence_mode :: bool
  group_start_timestamp :: int
  group_end_timestamp :: int
  pending_notify_all_group_start :: bool
  audio_preroll_buffer :: "StreamParserBuffer option"
  sample_duration :: int
  num_dropped_preroll_warnings :: int
  num_dts_beyond_pts_warnings :: int
  num_audio_non_keyframe_warnings :: int
  num_muxed_sequence_mode_warnings :: int
  duration_updates :: "int list"

definition FindTrack :: "FrameProcessor \<Rightarrow> int \<Rightarrow> MseTrackBuffer option" where
  "FindTrack s tid = map_of (track_buffers s) tid"

definition on_track ::
  "int \<Rightarrow> (MseTrackBuffer \<Rightarrow> MseTrackBuffer) \<Rightarrow> FrameProcessor \<Rightarrow> FrameProcessor" where
  \<comment> \<open>a write through the \<^verbatim>\<open>track_buffer\<close> pointer that \<^verbatim>\<open>FindTrack\<close> returned\<close>
  "on_track tid f s =
     s\<lparr>track_buffers :=
         map (\<lambda>(i, tb). (i, if i = tid then f tb else tb)) (track_buffers s)\<rparr>"

definition on_all_tracks ::
  "(MseTrackBuffer \<Rightarrow> MseTrackBuffer) \<Rightarrow> FrameProcessor \<Rightarrow> FrameProcessor" where
  "on_all_tracks f s = s\<lparr>track_buffers := map (\<lambda>(i, tb). (i, f tb)) (track_buffers s)\<rparr>"

definition SetAllTrackBuffersNeedRandomAccessPoint :: "FrameProcessor \<Rightarrow> FrameProcessor" where
  "SetAllTrackBuffersNeedRandomAccessPoint s =
     on_all_tracks (\<lambda>tb. tb\<lparr>needs_random_access_point := True\<rparr>) s"

definition FrameProcessor_Reset :: "FrameProcessor \<Rightarrow> FrameProcessor" where
  "FrameProcessor_Reset s =
     (let s1 = on_all_tracks MseTrackBuffer_Reset s
      in if \<not> sequence_mode s1 then s1\<lparr>pending_notify_all_group_start := True\<rparr>
         else s1\<lparr>group_start_timestamp := group_end_timestamp s1\<rparr>)"

definition NotifyStartOfCodedFrameGroup :: "int \<Rightarrow> FrameProcessor \<Rightarrow> FrameProcessor" where
  "NotifyStartOfCodedFrameGroup start_timestamp s =
     on_all_tracks (MseTrackBuffer_NotifyStartOfCodedFrameGroup start_timestamp) s"

definition FlushProcessedFrames :: "FrameProcessor \<Rightarrow> bool \<times> FrameProcessor" where
  "FlushProcessedFrames s =
     (let flushed = map (\<lambda>(i, tb). (i, MseTrackBuffer_FlushProcessedFrames tb)) (track_buffers s)
      in (list_all (\<lambda>(i, r). fst r) flushed,
          s\<lparr>track_buffers := map (\<lambda>(i, r). (i, snd r)) flushed\<rparr>))"

definition HandlePartialAppendWindowTrimming ::
  "FrameProcessor \<Rightarrow> int \<Rightarrow> int \<Rightarrow> StreamParserBuffer
     \<Rightarrow> bool \<times> FrameProcessor \<times> StreamParserBuffer" where
  "HandlePartialAppendWindowTrimming s append_window_start append_window_end buffer =
     (let frame_end_timestamp = timestamp buffer + duration buffer
      in if timestamp buffer < append_window_start \<and> frame_end_timestamp \<le> append_window_start
         then (False, s\<lparr>audio_preroll_buffer := Some buffer\<rparr>, buffer)
         else if timestamp buffer \<ge> append_window_end then (False, s, buffer)
         else
           (let (processed1, s1, buffer1) =
                  (case audio_preroll_buffer s of
                     None \<Rightarrow> (False, s, buffer)
                   | Some preroll \<Rightarrow>
                       (let delta = timestamp preroll + duration preroll - timestamp buffer
                        in if \<bar>delta\<bar> < sample_duration s
                           then (True, s\<lparr>audio_preroll_buffer := None\<rparr>,
                                 buffer\<lparr>preroll_buffer := Some (BufferData.truncate preroll)\<rparr>)
                           else (False,
                                 s\<lparr>num_dropped_preroll_warnings :=
                                      LIMITED_MEDIA_LOG (num_dropped_preroll_warnings s)
                                        kMaxDroppedPrerollWarnings,
                                   audio_preroll_buffer := None\<rparr>,
                                 buffer)));
                (processed2, buffer2) =
                  (if timestamp buffer1 < append_window_start
                   then (True,
                         buffer1\<lparr>discard_padding := (append_window_start - timestamp buffer1, 0),
                                 timestamp := append_window_start,
                                 GetDecodeTimestamp :=
                                   GetDecodeTimestamp buffer1
                                     + (append_window_start - timestamp buffer1),
                                 duration := frame_end_timestamp - append_window_start\<rparr>)
                   else (processed1, buffer1));
                (processed3, buffer3) =
                  (if frame_end_timestamp > append_window_end
                   then (True,
                         buffer2\<lparr>discard_padding :=
                                   (fst (discard_padding buffer2),
                                    frame_end_timestamp - append_window_end),
                                 duration := append_window_end - timestamp buffer2\<rparr>)
                   else (processed2, buffer2))
            in (processed3, s1, buffer3)))"

subsection \<open>ProcessFrame\<close>

text \<open>
  One pass through the body of the \<^verbatim>\<open>while (true)\<close> loop of \<^verbatim>\<open>ProcessFrame\<close> either returns
  (\<open>Done\<close>, with the returned flag, the processor and \<^verbatim>\<open>*timestamp_offset\<close>) or reaches the
  \<^verbatim>\<open>continue\<close> of step 6.6 (\<open>Again\<close>, with the frame as the pass left it). The body is written
  in four parts, in the order of the source; the locals that one part hands to the next are
  collected in a record.
\<close>

datatype Iteration =
  Done bool FrameProcessor int
  | Again FrameProcessor int StreamParserBuffer

datatype 'a Step = Stop Iteration | Go 'a

record ProcessFrameLocals =
  processor :: FrameProcessor
  timestamp_offset :: int
  frame :: StreamParserBuffer
  presentation_timestamp :: int
  decode_timestamp :: int
  frame_duration :: int

definition ProcessFrame_sequence_offset ::
  "FrameProcessor \<Rightarrow> int \<Rightarrow> int \<Rightarrow> FrameProcessor \<times> int" where
  \<comment> \<open>step 3 (lines 673-692)\<close>
  "ProcessFrame_sequence_offset s off pts =
     (if sequence_mode s \<and> group_start_timestamp s \<noteq> kNoTimestamp
      then ((SetAllTrackBuffersNeedRandomAccessPoint
               (s\<lparr>group_end_timestamp := group_start_timestamp s\<rparr>))
              \<lparr>group_start_timestamp := kNoTimestamp\<rparr>,
            group_start_timestamp s - pts)
      else (s, off))"

definition ProcessFrame_sanity_and_offset ::
  "FrameProcessor \<Rightarrow> StreamParserBuffer \<Rightarrow> int \<Rightarrow> ProcessFrameLocals Step" where
  \<comment> \<open>lines 605-704: the locals, the audio key frame rule, the sanity checks, steps 3 and 4\<close>
  "ProcessFrame_sanity_and_offset s frame0 off =
     (let pts = timestamp frame0;
          dts = GetDecodeTimestamp frame0;
          dur = duration frame0;
          audio_non_key = (frame_type frame0 = AUDIO \<and> \<not> is_key_frame frame0);
          s1 = (if audio_non_key
                then s\<lparr>num_audio_non_keyframe_warnings :=
                         LIMITED_MEDIA_LOG (num_audio_non_keyframe_warnings s)
                           kMaxAudioNonKeyframeWarnings\<rparr>
                else s);
          frame1 = (if audio_non_key then frame0\<lparr>is_key_frame := True\<rparr> else frame0)
      in if pts = kNoTimestamp then Stop (Done False s1 off)
         else if dts = kNoDecodeTimestamp then Stop (Done False s1 off)
         else
           (let s2 = (if dts > pts
                      then s1\<lparr>num_dts_beyond_pts_warnings :=
                               LIMITED_MEDIA_LOG (num_dts_beyond_pts_warnings s1)
                                 kMaxDtsBeyondPtsWarnings\<rparr>
                      else s1)
            in if dur = kNoTimestamp then Stop (Done False s2 off)
               else if dur < 0 then Stop (Done False s2 off)
               else
                 (let (s3, off3) = ProcessFrame_sequence_offset s2 off pts
                  in Go \<lparr> processor = s3,
                          timestamp_offset = off3,
                          frame = frame1,
                          presentation_timestamp = (if off3 \<noteq> 0 then pts + off3 else pts),
                          decode_timestamp = (if off3 \<noteq> 0 then dts + off3 else dts),
                          frame_duration = dur \<rparr>)))"

definition ProcessFrame_track_and_discontinuity ::
  "ProcessFrameLocals \<Rightarrow> (ProcessFrameLocals \<times> MseTrackBuffer) Step" where
  \<comment> \<open>lines 706-763: steps 5 and 6\<close>
  "ProcessFrame_track_and_discontinuity l =
     (case FindTrack (processor l) (track_id (frame l)) of
        None \<Rightarrow> Stop (Done False (processor l) (timestamp_offset l))
      | Some track_buffer \<Rightarrow>
          if frame_type (frame l) \<noteq> stream_type (stream track_buffer)
          then Stop (Done False (processor l) (timestamp_offset l))
          else
            (let track_last_decode_timestamp = last_decode_timestamp track_buffer;
                 track_dts_delta = decode_timestamp l - track_last_decode_timestamp
             in if track_last_decode_timestamp \<noteq> kNoDecodeTimestamp
                   \<and> (track_dts_delta < 0
                        \<or> track_dts_delta > 2 * last_frame_duration track_buffer)
                then
                  (let s1 = (if \<not> sequence_mode (processor l)
                             then (processor l)\<lparr>group_end_timestamp := presentation_timestamp l\<rparr>
                             else processor l)
                   in Stop (Again (FrameProcessor_Reset s1) (timestamp_offset l) (frame l)))
                else Go (l, track_buffer)))"

definition ProcessFrame_append_window ::
  "int \<Rightarrow> int \<Rightarrow> ProcessFrameLocals \<Rightarrow> MseTrackBuffer \<Rightarrow> (ProcessFrameLocals \<times> int) Step" where
  \<comment> \<open>lines 765-802: steps 7 to 9; the second component of the result is the frame end\<close>
  "ProcessFrame_append_window append_window_start append_window_end l track_buffer =
     (let frame_end_timestamp = presentation_timestamp l + frame_duration l;
          frame1 = (frame l)\<lparr>timestamp := presentation_timestamp l,
                             GetDecodeTimestamp := decode_timestamp l\<rparr>;
          (trimmed, s1, frame2) =
            (if supports_partial_append_window_trimming (stream track_buffer)
             then HandlePartialAppendWindowTrimming (processor l)
                    append_window_start append_window_end frame1
             else (False, processor l, frame1));
          l1 = (if trimmed
                then l\<lparr>processor := s1, frame := frame2,
                       presentation_timestamp := timestamp frame2,
                       decode_timestamp := GetDecodeTimestamp frame2\<rparr>
                else l\<lparr>processor := s1, frame := frame2\<rparr>);
          frame_end_timestamp1 =
            (if trimmed then timestamp frame2 + duration frame2 else frame_end_timestamp)
      in if presentation_timestamp l1 < append_window_start
            \<or> frame_end_timestamp1 > append_window_end
         then Stop (Done True
                 (on_track (track_id (frame l1))
                    (\<lambda>tb. tb\<lparr>needs_random_access_point := True\<rparr>) (processor l1))
                 (timestamp_offset l1))
         else Go (l1, frame_end_timestamp1))"

definition ProcessFrame_enqueue ::
  "ProcessFrameLocals \<Rightarrow> int \<Rightarrow> FrameProcessor \<Rightarrow> FrameProcessor" where
  \<comment> \<open>lines 875-894: steps 11 to 20\<close>
  "ProcessFrame_enqueue l frame_end_timestamp s =
     (let s1 = on_track (track_id (frame l))
                 (\<lambda>tb. SetHighestPresentationTimestampIfIncreased frame_end_timestamp
                          ((EnqueueProcessedFrame (frame l) tb)
                             \<lparr>last_decode_timestamp := decode_timestamp l,
                              last_frame_duration := frame_duration l\<rparr>)) s
      in if frame_end_timestamp > group_end_timestamp s1
         then s1\<lparr>group_end_timestamp := frame_end_timestamp\<rparr>
         else s1)"

definition ProcessFrame_emit ::
  "ProcessFrameLocals \<Rightarrow> MseTrackBuffer \<Rightarrow> int \<Rightarrow> Iteration" where
  \<comment> \<open>lines 804-898: the negative DTS check, step 10, the group start signal, steps 11 to 20;
      \<open>track_buffer\<close> is the track buffer as step 5 found it, which nothing has written since\<close>
  "ProcessFrame_emit l track_buffer frame_end_timestamp =
     (let s = processor l; off = timestamp_offset l; tid = track_id (frame l)
      in if decode_timestamp l < 0 then Done False s off
         else if needs_random_access_point track_buffer \<and> \<not> is_key_frame (frame l)
         then Done True s off
         else
           (let s1 = (if needs_random_access_point track_buffer
                      then on_track tid (\<lambda>tb. tb\<lparr>needs_random_access_point := False\<rparr>) s
                      else s)
            in if pending_notify_all_group_start s1
                  \<or> last_processed_decode_timestamp track_buffer > decode_timestamp l
               then
                 (let (flushed, s2) = FlushProcessedFrames s1
                  in if \<not> flushed then Done False s2 off
                     else
                       (let s3 = (if pending_notify_all_group_start s2
                                  then (NotifyStartOfCodedFrameGroup (decode_timestamp l) s2)
                                         \<lparr>pending_notify_all_group_start := False\<rparr>
                                  else on_track tid
                                         (MseTrackBuffer_NotifyStartOfCodedFrameGroup
                                            (decode_timestamp l)) s2)
                        in Done True (ProcessFrame_enqueue l frame_end_timestamp s3) off))
               else Done True (ProcessFrame_enqueue l frame_end_timestamp s1) off))"

definition ProcessFrame_iteration ::
  "FrameProcessor \<Rightarrow> StreamParserBuffer \<Rightarrow> int \<Rightarrow> int \<Rightarrow> int \<Rightarrow> Iteration" where
  "ProcessFrame_iteration s frame0 append_window_start append_window_end off =
     (case ProcessFrame_sanity_and_offset s frame0 off of
        Stop r \<Rightarrow> r
      | Go l \<Rightarrow>
          (case ProcessFrame_track_and_discontinuity l of
             Stop r \<Rightarrow> r
           | Go (l1, track_buffer) \<Rightarrow>
               (case ProcessFrame_append_window append_window_start append_window_end
                       l1 track_buffer of
                  Stop r \<Rightarrow> r
                | Go (l2, frame_end_timestamp) \<Rightarrow>
                    ProcessFrame_emit l2 track_buffer frame_end_timestamp)))"

section \<open>Properties of MseTrackBuffer\<close>

text \<open>
  C4. \<^verbatim>\<open>MseTrackBuffer::Reset\<close> unsets the last decode timestamp, the last frame duration, the
  highest presentation timestamp and the last keyframe presentation timestamp, sets the
  needs-random-access-point flag, and leaves the last processed decode timestamp and every
  other field (the sink, the staged frames, the warning counter) as they were.
\<close>

theorem MseTrackBuffer_Reset_effect:
  "last_decode_timestamp (MseTrackBuffer_Reset tb) = kNoDecodeTimestamp
   \<and> last_frame_duration (MseTrackBuffer_Reset tb) = kNoTimestamp
   \<and> highest_presentation_timestamp (MseTrackBuffer_Reset tb) = kNoTimestamp
   \<and> last_keyframe_presentation_timestamp (MseTrackBuffer_Reset tb) = kNoTimestamp
   \<and> needs_random_access_point (MseTrackBuffer_Reset tb) = True
   \<and> last_processed_decode_timestamp (MseTrackBuffer_Reset tb)
       = last_processed_decode_timestamp tb
   \<and> stream (MseTrackBuffer_Reset tb) = stream tb
   \<and> processed_frames (MseTrackBuffer_Reset tb) = processed_frames tb
   \<and> num_keyframe_time_greater_than_dependant_warnings (MseTrackBuffer_Reset tb)
       = num_keyframe_time_greater_than_dependant_warnings tb
   \<and> MseTrackBuffer.more (MseTrackBuffer_Reset tb) = MseTrackBuffer.more tb"
  by (simp add: MseTrackBuffer_Reset_def)

subsection \<open>The retry loop of ProcessFrame\<close>

text \<open>
  The \<^verbatim>\<open>while (true)\<close> loop runs the body again only after the \<^verbatim>\<open>continue\<close> of step 6.6.
  That it ends is proved before the loop is defined: a pass that follows a restart finds
  every last decode timestamp unset and cannot restart.
\<close>

definition all_last_decode_timestamps_unset :: "FrameProcessor \<Rightarrow> bool" where
  "all_last_decode_timestamps_unset s =
     list_all (\<lambda>p. last_decode_timestamp (snd p) = kNoDecodeTimestamp) (track_buffers s)"

lemma ProcessFrame_emit_not_Again:
  "ProcessFrame_emit l tb fe \<noteq> Again s' off' f'"
  by (simp add: ProcessFrame_emit_def Let_def split: prod.splits)

lemma ProcessFrame_append_window_not_Again:
  "ProcessFrame_append_window ws we l tb \<noteq> Stop (Again s' off' f')"
  by (simp add: ProcessFrame_append_window_def Let_def split: prod.splits)

lemma ProcessFrame_sanity_not_Again:
  "ProcessFrame_sanity_and_offset s f off \<noteq> Stop (Again s' off' f')"
  by (simp add: ProcessFrame_sanity_and_offset_def Let_def split: prod.splits)

lemma unset_after_Reset:
  "all_last_decode_timestamps_unset (FrameProcessor_Reset s)"
  by (simp add: all_last_decode_timestamps_unset_def FrameProcessor_Reset_def on_all_tracks_def
      Let_def MseTrackBuffer_Reset_def list_all_iff split: prod.splits)

lemma unset_sequence_offset:
  "all_last_decode_timestamps_unset s \<Longrightarrow>
   all_last_decode_timestamps_unset (fst (ProcessFrame_sequence_offset s off pts))"
  by (auto simp add: all_last_decode_timestamps_unset_def ProcessFrame_sequence_offset_def
      SetAllTrackBuffersNeedRandomAccessPoint_def on_all_tracks_def list_all_iff)

lemma unset_track_buffers:
  "track_buffers s = track_buffers t \<Longrightarrow>
   all_last_decode_timestamps_unset s = all_last_decode_timestamps_unset t"
  by (simp add: all_last_decode_timestamps_unset_def)

lemma ProcessFrame_sanity_Go_tracks:
  assumes "ProcessFrame_sanity_and_offset s f off = Go l"
  shows "track_buffers (processor l) = track_buffers s
         \<or> track_buffers (processor l)
             = track_buffers (SetAllTrackBuffersNeedRandomAccessPoint s)"
  using assms
  by (auto simp add: ProcessFrame_sanity_and_offset_def Let_def ProcessFrame_sequence_offset_def
      SetAllTrackBuffersNeedRandomAccessPoint_def on_all_tracks_def
      split: if_splits)

lemma unset_SetAllTrackBuffersNeedRandomAccessPoint:
  "all_last_decode_timestamps_unset (SetAllTrackBuffersNeedRandomAccessPoint s)
   = all_last_decode_timestamps_unset s"
  by (simp add: all_last_decode_timestamps_unset_def SetAllTrackBuffersNeedRandomAccessPoint_def
      on_all_tracks_def list_all_iff split_beta)

lemma unset_sanity:
  assumes "all_last_decode_timestamps_unset s" and "ProcessFrame_sanity_and_offset s f off = Go l"
  shows "all_last_decode_timestamps_unset (processor l)"
  using ProcessFrame_sanity_Go_tracks [OF assms(2)] assms(1)
    unset_SetAllTrackBuffersNeedRandomAccessPoint [of s]
    unset_track_buffers [of "processor l" s]
    unset_track_buffers [of "processor l" "SetAllTrackBuffersNeedRandomAccessPoint s"]
  by blast

lemma unset_FindTrack:
  "all_last_decode_timestamps_unset s \<Longrightarrow> FindTrack s tid = Some tb \<Longrightarrow>
   last_decode_timestamp tb = kNoDecodeTimestamp"
  by (auto simp add: all_last_decode_timestamps_unset_def FindTrack_def list_all_iff
      dest!: map_of_SomeD)

lemma unset_no_discontinuity:
  "all_last_decode_timestamps_unset (processor l) \<Longrightarrow>
   ProcessFrame_track_and_discontinuity l \<noteq> Stop (Again s' off' f')"
  by (auto simp add: ProcessFrame_track_and_discontinuity_def Let_def 
      split: option.splits dest: unset_FindTrack)


lemma ProcessFrame_iteration_Again:
  assumes "ProcessFrame_iteration s f ws we off = Again s' off' f'"
  shows "\<exists>l. ProcessFrame_sanity_and_offset s f off = Go l
          \<and> ProcessFrame_track_and_discontinuity l = Stop (Again s' off' f')"
  using assms
  by (auto simp add: ProcessFrame_iteration_def ProcessFrame_emit_not_Again
      ProcessFrame_append_window_not_Again ProcessFrame_sanity_not_Again
      split: Step.splits prod.splits)

lemma ProcessFrame_discontinuity_Again:
  assumes "ProcessFrame_track_and_discontinuity l = Stop (Again s' off' f')"
  shows "all_last_decode_timestamps_unset s'"
  using assms
  by (auto simp add: ProcessFrame_track_and_discontinuity_def Let_def unset_after_Reset
      split: option.splits if_splits)

lemma ProcessFrame_iteration_after_Again:
  assumes "ProcessFrame_iteration s f ws we off = Again s' off' f'"
  shows "ProcessFrame_iteration s' f' ws we off' \<noteq> Again s'' off'' f''"
proof
  assume again: "ProcessFrame_iteration s' f' ws we off' = Again s'' off'' f''"
  from assms obtain l where "ProcessFrame_track_and_discontinuity l = Stop (Again s' off' f')"
    using ProcessFrame_iteration_Again by blast
  then have unset: "all_last_decode_timestamps_unset s'"
    by (rule ProcessFrame_discontinuity_Again)
  from again obtain l' where
    go: "ProcessFrame_sanity_and_offset s' f' off' = Go l'" and
    disc: "ProcessFrame_track_and_discontinuity l' = Stop (Again s'' off'' f'')"
    using ProcessFrame_iteration_Again by blast
  from unset go have "all_last_decode_timestamps_unset (processor l')"
    by (rule unset_sanity)
  with disc show False
    using unset_no_discontinuity by blast
qed

text \<open>
  The loop, with the number of passes it runs; \<^verbatim>\<open>ProcessFrame\<close> is what the loop returns.
\<close>

function ProcessFrame_loop ::
  "FrameProcessor \<Rightarrow> StreamParserBuffer \<Rightarrow> int \<Rightarrow> int \<Rightarrow> int
     \<Rightarrow> nat \<times> bool \<times> FrameProcessor \<times> int" where
  "ProcessFrame_loop s frame0 append_window_start append_window_end off =
     (case ProcessFrame_iteration s frame0 append_window_start append_window_end off of
        Done result s' off' \<Rightarrow> (1, result, s', off')
      | Again s' off' frame' \<Rightarrow>
          (let (n, r) = ProcessFrame_loop s' frame' append_window_start append_window_end off'
           in (n + 1, r)))"
  by pat_completeness auto
termination
  by (relation "measure (\<lambda>(s, f, ws, we, off).
         case ProcessFrame_iteration s f ws we off of Done _ _ _ \<Rightarrow> 0 | Again _ _ _ \<Rightarrow> 1)")
     (auto split: Iteration.splits dest: ProcessFrame_iteration_after_Again)


declare ProcessFrame_loop.simps [simp del]

definition ProcessFrame ::
  "FrameProcessor \<Rightarrow> StreamParserBuffer \<Rightarrow> int \<Rightarrow> int \<Rightarrow> int \<Rightarrow> bool \<times> FrameProcessor \<times> int" where
  "ProcessFrame s frame0 append_window_start append_window_end off =
     snd (ProcessFrame_loop s frame0 append_window_start append_window_end off)"

text \<open>A processor with one video track, and frames for it, for the worked instances below.\<close>

definition example_stream :: ChunkDemuxerStream where
  "example_stream =
     \<lparr> stream_type = VIDEO, supports_partial_append_window_trimming = False,
       append_answer = (\<lambda>evs frames. True), events = [] \<rparr>"

definition example_frame :: "int \<Rightarrow> int \<Rightarrow> int \<Rightarrow> bool \<Rightarrow> StreamParserBuffer" where
  "example_frame pts dts dur key =
     \<lparr> timestamp = pts, GetDecodeTimestamp = dts, duration = dur, is_key_frame = key,
       frame_type = VIDEO, track_id = 1, data_size = 1, GetConfigId = 0,
       end_of_stream = False, discard_padding = (0, 0), preroll_buffer = None \<rparr>"

definition example_processor :: FrameProcessor where
  "example_processor =
     \<lparr> track_buffers =
         [(1, (MseTrackBuffer_new example_stream)
                \<lparr>last_decode_timestamp := 0, last_frame_duration := 10,
                 needs_random_access_point := False\<rparr>)],
       sequence_mode = False,
       group_start_timestamp = kNoTimestamp,
       group_end_timestamp = 10,
       pending_notify_all_group_start = False,
       audio_preroll_buffer = None,
       sample_duration = 0,
       num_dropped_preroll_warnings = 0,
       num_dts_beyond_pts_warnings = 0,
       num_audio_non_keyframe_warnings = 0,
       num_muxed_sequence_mode_warnings = 0,
       duration_updates = [] \<rparr>"

lemma ProcessFrame_loop_Done:
  "ProcessFrame_iteration s f ws we off = Done b s' off' \<Longrightarrow>
   ProcessFrame_loop s f ws we off = (1, b, s', off')"
  by (simp add: ProcessFrame_loop.simps)

lemma ProcessFrame_loop_Again:
  assumes "ProcessFrame_iteration s f ws we off = Again s' off' f'"
  shows "\<exists>b s'' off''. ProcessFrame_iteration s' f' ws we off' = Done b s'' off''
           \<and> ProcessFrame_loop s f ws we off = (2, b, s'', off'')"
proof (cases "ProcessFrame_iteration s' f' ws we off'")
  case (Done b s'' off'')
  then have "ProcessFrame_loop s' f' ws we off' = (1, b, s'', off'')"
    by (rule ProcessFrame_loop_Done)
  with assms Done show ?thesis
    by (simp add: ProcessFrame_loop.simps [of s f])
next
  case (Again s'' off'' f'')
  with assms show ?thesis
    using ProcessFrame_iteration_after_Again by blast
qed

text \<open>
  C1. \<^verbatim>\<open>ProcessFrame\<close> runs the body of its loop at most twice. A pass restarts exactly when
  the frame passes the sanity checks, its track is known and of the frame's type, the track's last
  decode timestamp is set and the decode timestamp is below it or more than twice the last frame
  duration above it; the restart resets all track buffers (\<^verbatim>\<open>Reset()\<close>), which leaves every
  last decode timestamp unset, and the pass that follows on the same frame returns.
\<close>

theorem ProcessFrame_at_most_one_restart:
  "fst (ProcessFrame_loop s f ws we off) \<le> 2
   \<and> (\<forall>s' off' f'. ProcessFrame_iteration s f ws we off = Again s' off' f' \<longrightarrow>
         all_last_decode_timestamps_unset s'
         \<and> (\<exists>b s'' off''. ProcessFrame_iteration s' f' ws we off' = Done b s'' off''
               \<and> ProcessFrame s f ws we off = (b, s'', off'')))
   \<and> (\<forall>l tb. ProcessFrame_sanity_and_offset s f off = Go l
           \<and> FindTrack (processor l) (track_id (frame l)) = Some tb
           \<and> frame_type (frame l) = stream_type (stream tb)
           \<and> last_decode_timestamp tb \<noteq> kNoDecodeTimestamp
           \<and> (decode_timestamp l < last_decode_timestamp tb
                \<or> decode_timestamp l - last_decode_timestamp tb > 2 * last_frame_duration tb)
         \<longrightarrow> ProcessFrame_iteration s f ws we off
               = Again (FrameProcessor_Reset
                          (if sequence_mode (processor l) then processor l
                           else (processor l)\<lparr>group_end_timestamp := presentation_timestamp l\<rparr>))
                       (timestamp_offset l) (frame l))"
proof (intro conjI allI impI)
  show "fst (ProcessFrame_loop s f ws we off) \<le> 2"
  proof (cases "ProcessFrame_iteration s f ws we off")
    case (Done b s' off')
    then show ?thesis by (simp add: ProcessFrame_loop_Done)
  next
    case (Again s' off' f')
    then show ?thesis using ProcessFrame_loop_Again by fastforce
  qed
next
  fix s' off' f'
  assume again: "ProcessFrame_iteration s f ws we off = Again s' off' f'"
  then obtain l where "ProcessFrame_track_and_discontinuity l = Stop (Again s' off' f')"
    using ProcessFrame_iteration_Again by blast
  then show "all_last_decode_timestamps_unset s'"
    by (rule ProcessFrame_discontinuity_Again)
  from ProcessFrame_loop_Again [OF again]
  show "\<exists>b s'' off''. ProcessFrame_iteration s' f' ws we off' = Done b s'' off''
               \<and> ProcessFrame s f ws we off = (b, s'', off'')"
    by (auto simp add: ProcessFrame_def)
next
  fix l tb
  assume "ProcessFrame_sanity_and_offset s f off = Go l
           \<and> FindTrack (processor l) (track_id (frame l)) = Some tb
           \<and> frame_type (frame l) = stream_type (stream tb)
           \<and> last_decode_timestamp tb \<noteq> kNoDecodeTimestamp
           \<and> (decode_timestamp l < last_decode_timestamp tb
                \<or> decode_timestamp l - last_decode_timestamp tb > 2 * last_frame_duration tb)"
  then show "ProcessFrame_iteration s f ws we off
               = Again (FrameProcessor_Reset
                          (if sequence_mode (processor l) then processor l
                           else (processor l)\<lparr>group_end_timestamp := presentation_timestamp l\<rparr>))
                       (timestamp_offset l) (frame l)"
    by (auto simp add: ProcessFrame_iteration_def ProcessFrame_track_and_discontinuity_def Let_def)
qed

lemma example_iteration:
  "ProcessFrame_iteration example_processor (example_frame 100 100 10 True) 0 1000 0
   = Again (FrameProcessor_Reset (example_processor\<lparr>group_end_timestamp := 100\<rparr>)) 0
       (example_frame 100 100 10 True)"
  by (simp add: ProcessFrame_iteration_def ProcessFrame_sanity_and_offset_def
      ProcessFrame_sequence_offset_def ProcessFrame_track_and_discontinuity_def
      example_processor_def example_frame_def example_stream_def MseTrackBuffer_new_def
      FindTrack_def kNoTimestamp_def kNoDecodeTimestamp_def Let_def)

theorem ProcessFrame_at_most_one_restart_witness:
  "ProcessFrame_iteration example_processor (example_frame 100 100 10 True) 0 1000 0
     = Again (FrameProcessor_Reset (example_processor\<lparr>group_end_timestamp := 100\<rparr>)) 0
         (example_frame 100 100 10 True)
   \<and> fst (ProcessFrame_loop example_processor (example_frame 100 100 10 True) 0 1000 0) \<le> 2
   \<and> all_last_decode_timestamps_unset
        (FrameProcessor_Reset (example_processor\<lparr>group_end_timestamp := 100\<rparr>))
   \<and> (\<exists>b s'' off''.
         ProcessFrame_iteration
           (FrameProcessor_Reset (example_processor\<lparr>group_end_timestamp := 100\<rparr>))
           (example_frame 100 100 10 True) 0 1000 0 = Done b s'' off''
         \<and> ProcessFrame example_processor (example_frame 100 100 10 True) 0 1000 0
             = (b, s'', off''))"
  using ProcessFrame_at_most_one_restart
          [of example_processor "example_frame 100 100 10 True" 0 1000 0]
        example_iteration
  by simp

subsection \<open>ProcessFrames\<close>

text \<open>
  \<^verbatim>\<open>MergeBufferQueues\<close> (\<^verbatim>\<open>media/base/stream_parser.cc\<close>) is not among the sources: its
  outcome is a parameter, \<open>None\<close> when it returns false and the merged queue otherwise.
\<close>

fun ProcessFrames_loop ::
  "FrameProcessor \<Rightarrow> BufferQueue \<Rightarrow> int \<Rightarrow> int \<Rightarrow> int \<Rightarrow> bool \<times> FrameProcessor \<times> int" where
  "ProcessFrames_loop s [] append_window_start append_window_end off = (True, s, off)"
| "ProcessFrames_loop s (frame0 # frames) append_window_start append_window_end off =
     (let (ok, s1, off1) = ProcessFrame s frame0 append_window_start append_window_end off
      in if \<not> ok then (False, snd (FlushProcessedFrames s1), off1)
         else ProcessFrames_loop s1 frames append_window_start append_window_end off1)"

definition ProcessFrames_muxed_warning :: "FrameProcessor \<Rightarrow> FrameProcessor" where
  \<comment> \<open>lines 308-327\<close>
  "ProcessFrames_muxed_warning s =
     (if sequence_mode s \<and> length (track_buffers s) > 1
      then s\<lparr>num_muxed_sequence_mode_warnings :=
               LIMITED_MEDIA_LOG (num_muxed_sequence_mode_warnings s)
                 kMaxMuxedSequenceModeWarnings\<rparr>
      else s)"

definition ProcessFrames ::
  "FrameProcessor \<Rightarrow> BufferQueue option \<Rightarrow> int \<Rightarrow> int \<Rightarrow> int \<Rightarrow> bool \<times> FrameProcessor \<times> int" where
  "ProcessFrames s merged append_window_start append_window_end off =
     (case merged of
        None \<Rightarrow> (False, s, off)
      | Some frames \<Rightarrow>
          (let s1 = ProcessFrames_muxed_warning s;
               (ok, s2, off2) =
                 ProcessFrames_loop s1 frames append_window_start append_window_end off
           in if \<not> ok then (False, s2, off2)
              else
                (let (flushed, s3) = FlushProcessedFrames s2
                 in if \<not> flushed then (False, s3, off2)
                    else (True,
                          s3\<lparr>duration_updates := duration_updates s3 @ [group_end_timestamp s3]\<rparr>,
                          off2))))"

subsection \<open>What a pass keeps\<close>

text \<open>
  The ids and declared types of the tracks and the record of duration updates are the same
  after every step of \<^verbatim>\<open>ProcessFrame\<close>.
\<close>

definition track_types :: "FrameProcessor \<Rightarrow> (int \<times> DemuxerStreamType) list" where
  "track_types s = map (\<lambda>(i, tb). (i, stream_type (stream tb))) (track_buffers s)"

lemmas track_ops =
  on_all_tracks_def on_track_def SetAllTrackBuffersNeedRandomAccessPoint_def
  NotifyStartOfCodedFrameGroup_def FrameProcessor_Reset_def FlushProcessedFrames_def

lemma stream_type_flush:
  "stream_type (stream (snd (MseTrackBuffer_FlushProcessedFrames tb))) = stream_type (stream tb)"
  by (simp add: MseTrackBuffer_FlushProcessedFrames_def Append_def Let_def)

lemma keeps_FlushProcessedFrames:
  "track_types (snd (FlushProcessedFrames s)) = track_types s"
  "duration_updates (snd (FlushProcessedFrames s)) = duration_updates s"
  by (simp_all add: track_types_def track_ops Let_def split_beta stream_type_flush)

lemma keeps_Reset:
  "track_types (FrameProcessor_Reset s) = track_types s"
  "duration_updates (FrameProcessor_Reset s) = duration_updates s"
  by (simp_all add: track_types_def track_ops Let_def split_beta MseTrackBuffer_Reset_def)

lemma keeps_sanity:
  "ProcessFrame_sanity_and_offset s f off = Go l \<Longrightarrow>
   track_types (processor l) = track_types s
   \<and> duration_updates (processor l) = duration_updates s"
  by (auto simp add: ProcessFrame_sanity_and_offset_def Let_def ProcessFrame_sequence_offset_def
      track_types_def track_ops split_beta split: if_splits)

lemma keeps_sanity_Stop:
  "ProcessFrame_sanity_and_offset s f off = Stop (Done b s' off') \<Longrightarrow>
   track_types s' = track_types s \<and> duration_updates s' = duration_updates s"
  by (auto simp add: ProcessFrame_sanity_and_offset_def Let_def ProcessFrame_sequence_offset_def
      track_types_def track_ops split_beta split: if_splits)

lemma keeps_discontinuity:
  "ProcessFrame_track_and_discontinuity l = Stop (Done b s' off') \<Longrightarrow>
   track_types s' = track_types (processor l)
   \<and> duration_updates s' = duration_updates (processor l)"
  "ProcessFrame_track_and_discontinuity l = Stop (Again s' off' f') \<Longrightarrow>
   track_types s' = track_types (processor l)
   \<and> duration_updates s' = duration_updates (processor l)"
  "ProcessFrame_track_and_discontinuity l = Go (l', tb) \<Longrightarrow> l' = l"
  by (auto simp add: ProcessFrame_track_and_discontinuity_def Let_def keeps_Reset
      split: option.splits if_splits)
    (simp_all add: track_types_def)

lemma HandlePartialAppendWindowTrimming_keeps:
  "track_buffers (fst (snd (HandlePartialAppendWindowTrimming s ws we buffer))) = track_buffers s"
  "duration_updates (fst (snd (HandlePartialAppendWindowTrimming s ws we buffer)))
     = duration_updates s"
  by (simp_all add: HandlePartialAppendWindowTrimming_def Let_def split_beta
      split: option.splits)

lemma keeps_append_window:
  "ProcessFrame_append_window ws we l tb = Stop (Done b s' off') \<Longrightarrow>
   track_types s' = track_types (processor l)
   \<and> duration_updates s' = duration_updates (processor l)"
  "ProcessFrame_append_window ws we l tb = Go (l', fe) \<Longrightarrow>
   track_types (processor l') = track_types (processor l)
   \<and> duration_updates (processor l') = duration_updates (processor l)"
  by (auto simp add: ProcessFrame_append_window_def Let_def track_types_def track_ops split_beta
      HandlePartialAppendWindowTrimming_keeps split: if_splits)

lemma keeps_enqueue:
  "track_types (ProcessFrame_enqueue l fe s) = track_types s"
  "duration_updates (ProcessFrame_enqueue l fe s) = duration_updates s"
  by (simp_all add: ProcessFrame_enqueue_def Let_def track_types_def track_ops split_beta
      SetHighestPresentationTimestampIfIncreased_def EnqueueProcessedFrame_def)

lemma keeps_emit:
  "ProcessFrame_emit l tb fe = Done b s' off' \<Longrightarrow>
   track_types s' = track_types (processor l)
   \<and> duration_updates s' = duration_updates (processor l)"
  by (auto simp add: ProcessFrame_emit_def Let_def keeps_enqueue
      split: if_splits prod.splits)
     (auto simp add: track_types_def track_ops split_beta stream_type_flush Let_def
         MseTrackBuffer_NotifyStartOfCodedFrameGroup_def)

lemma keeps_iteration:
  "ProcessFrame_iteration s f ws we off = Done b s' off' \<Longrightarrow>
   track_types s' = track_types s \<and> duration_updates s' = duration_updates s"
  "ProcessFrame_iteration s f ws we off = Again s' off' f' \<Longrightarrow>
   track_types s' = track_types s \<and> duration_updates s' = duration_updates s"
  by (auto simp add: ProcessFrame_iteration_def ProcessFrame_emit_not_Again
      ProcessFrame_append_window_not_Again ProcessFrame_sanity_not_Again
      split: Step.splits prod.splits Iteration.splits
      dest!: keeps_sanity keeps_sanity_Stop keeps_discontinuity
        keeps_append_window keeps_emit)

lemma ProcessFrame_cases:
  assumes "ProcessFrame s f ws we off = (b, s', off')"
  shows "ProcessFrame_iteration s f ws we off = Done b s' off'
         \<or> (\<exists>s1 off1 f1. ProcessFrame_iteration s f ws we off = Again s1 off1 f1
               \<and> ProcessFrame_iteration s1 f1 ws we off1 = Done b s' off')"
proof (cases "ProcessFrame_iteration s f ws we off")
  case (Done b0 s0 off0)
  with assms show ?thesis
    by (simp add: ProcessFrame_def ProcessFrame_loop_Done)
next
  case (Again s1 off1 f1)
  from ProcessFrame_loop_Again [OF Again] assms Again show ?thesis
    by (auto simp add: ProcessFrame_def)
qed

lemma keeps_ProcessFrame:
  assumes "ProcessFrame s f ws we off = (b, s', off')"
  shows "track_types s' = track_types s \<and> duration_updates s' = duration_updates s"
  using ProcessFrame_cases [OF assms]
  by (auto dest!: keeps_iteration)

subsection \<open>Frames that fail the batch\<close>

text \<open>
  The frames named by the error taxonomy: an unset presentation timestamp, decode timestamp or
  duration, a negative duration, a track id that is not registered, or a type other than the
  registered type of the track.
\<close>

definition frame_rejected :: "FrameProcessor \<Rightarrow> StreamParserBuffer \<Rightarrow> bool" where
  "frame_rejected s f =
     (timestamp f = kNoTimestamp \<or> GetDecodeTimestamp f = kNoDecodeTimestamp
      \<or> duration f = kNoTimestamp \<or> duration f < 0
      \<or> (case FindTrack s (track_id f) of
            None \<Rightarrow> True
          | Some tb \<Rightarrow> frame_type f \<noteq> stream_type (stream tb)))"

lemma FindTrack_track_types:
  "map_option (\<lambda>tb. stream_type (stream tb)) (FindTrack s tid) = map_of (track_types s) tid"
  by (simp add: FindTrack_def track_types_def map_of_map)

lemma frame_rejected_track_types:
  "frame_rejected s f =
     (timestamp f = kNoTimestamp \<or> GetDecodeTimestamp f = kNoDecodeTimestamp
      \<or> duration f = kNoTimestamp \<or> duration f < 0
      \<or> (case map_of (track_types s) (track_id f) of
            None \<Rightarrow> True
          | Some ty \<Rightarrow> frame_type f \<noteq> ty))"
  unfolding frame_rejected_def FindTrack_track_types [symmetric]
  by (simp split: option.splits)

lemma ProcessFrame_sanity_Go_frame:
  "ProcessFrame_sanity_and_offset s f off = Go l \<Longrightarrow>
   track_id (frame l) = track_id f \<and> frame_type (frame l) = frame_type f
   \<and> timestamp f \<noteq> kNoTimestamp \<and> GetDecodeTimestamp f \<noteq> kNoDecodeTimestamp
   \<and> duration f \<noteq> kNoTimestamp \<and> \<not> duration f < 0"
  by (auto simp add: ProcessFrame_sanity_and_offset_def Let_def split_beta split: if_splits)

lemma ProcessFrame_sanity_Stop:
  "ProcessFrame_sanity_and_offset s f off = Stop r \<Longrightarrow> \<exists>s'. r = Done False s' off"
  by (auto simp add: ProcessFrame_sanity_and_offset_def Let_def split_beta split: if_splits)

lemma frame_rejected_iteration:
  assumes "frame_rejected s f"
  shows "\<exists>s' off'. ProcessFrame_iteration s f ws we off = Done False s' off'"
proof (cases "ProcessFrame_sanity_and_offset s f off")
  case (Stop r)
  then show ?thesis
    using ProcessFrame_sanity_Stop [OF Stop] by (auto simp add: ProcessFrame_iteration_def)
next
  case (Go l)
  note fr = ProcessFrame_sanity_Go_frame [OF Go]
  have "track_types (processor l) = track_types s"
    using keeps_sanity [OF Go] by simp
  with assms fr have "case map_of (track_types (processor l)) (track_id (frame l)) of
            None \<Rightarrow> True | Some ty \<Rightarrow> frame_type (frame l) \<noteq> ty"
    by (auto simp add: frame_rejected_track_types split: option.splits)
  then have "case FindTrack (processor l) (track_id (frame l)) of
            None \<Rightarrow> True | Some tb \<Rightarrow> frame_type (frame l) \<noteq> stream_type (stream tb)"
    unfolding FindTrack_track_types [symmetric] by (simp split: option.splits)
  then have "\<exists>s' off'. ProcessFrame_track_and_discontinuity l = Stop (Done False s' off')"
    by (auto simp add: ProcessFrame_track_and_discontinuity_def split: option.splits)
  with Go show ?thesis
    by (auto simp add: ProcessFrame_iteration_def)
qed

lemma frame_rejected_ProcessFrame:
  assumes "frame_rejected s f"
  shows "fst (ProcessFrame s f ws we off) = False"
proof -
  obtain s' off' where "ProcessFrame_iteration s f ws we off = Done False s' off'"
    using frame_rejected_iteration [OF assms] by blast
  then have "ProcessFrame_loop s f ws we off = (1, False, s', off')"
    by (rule ProcessFrame_loop_Done)
  then show ?thesis
    by (simp add: ProcessFrame_def)
qed

lemma frame_rejected_ProcessFrames_loop:
  "frame_rejected s f \<Longrightarrow> f \<in> set frames \<Longrightarrow>
   fst (ProcessFrames_loop s frames ws we off) = False"
proof (induction frames arbitrary: s off)
  case Nil
  then show ?case by simp
next
  case (Cons g frames)
  obtain ok s1 off1 where pf: "ProcessFrame s g ws we off = (ok, s1, off1)"
    by (cases "ProcessFrame s g ws we off") auto
  show ?case
  proof (cases ok)
    case False
    with pf show ?thesis by simp
  next
    case True
    with Cons.prems pf frame_rejected_ProcessFrame [of s g ws we off] have "f \<in> set frames"
      by auto
    moreover have "frame_rejected s1 f"
      using Cons.prems(1) keeps_ProcessFrame [OF pf]
      by (simp add: frame_rejected_track_types)
    ultimately have "fst (ProcessFrames_loop s1 frames ws we off1) = False"
      by (rule Cons.IH [rotated])
    with pf True show ?thesis by simp
  qed
qed


lemma frame_rejected_stops_batch:
  "frame_rejected s f \<Longrightarrow>
   ProcessFrames_loop s (pre @ f # rest) ws we off = ProcessFrames_loop s (pre @ [f]) ws we off"
proof (induction pre arbitrary: s off)
  case Nil
  then show ?case
    using frame_rejected_ProcessFrame [of s f ws we off]
    by (simp add: split_beta)
next
  case (Cons g pre)
  obtain ok s1 off1 where pf: "ProcessFrame s g ws we off = (ok, s1, off1)"
    by (cases "ProcessFrame s g ws we off") auto
  have "frame_rejected s1 f"
    using Cons.prems keeps_ProcessFrame [OF pf]
    by (simp add: frame_rejected_track_types)
  then have "ProcessFrames_loop s1 (pre @ f # rest) ws we off1
             = ProcessFrames_loop s1 (pre @ [f]) ws we off1"
    by (rule Cons.IH)
  with pf show ?case by simp
qed

lemma duration_updates_ProcessFrames_loop:
  "duration_updates (fst (snd (ProcessFrames_loop s frames ws we off))) = duration_updates s"
proof (induction frames arbitrary: s off)
  case Nil
  show ?case by simp
next
  case (Cons g frames)
  obtain ok s1 off1 where pf: "ProcessFrame s g ws we off = (ok, s1, off1)"
    by (cases "ProcessFrame s g ws we off") auto
  with Cons.IH [of s1 off1] keeps_ProcessFrame [OF pf] show ?case
    by (simp add: keeps_FlushProcessedFrames)
qed


text \<open>No \<^verbatim>\<open>Append\<close> call recorded by any sink of the processor has failed.\<close>

definition append_call_ok :: "StreamEvent \<Rightarrow> bool" where
  "append_call_ok e = (case e of AppendCall frames result \<Rightarrow> result
                       | OnStartOfCodedFrameGroup start_time \<Rightarrow> True)"

definition track_ok :: "MseTrackBuffer \<Rightarrow> bool" where
  "track_ok tb = list_all append_call_ok (events (stream tb))"

definition no_failed_append :: "FrameProcessor \<Rightarrow> bool" where
  "no_failed_append s = list_all (\<lambda>p. track_ok (snd p)) (track_buffers s)"

lemma track_ok_flush:
  "fst (MseTrackBuffer_FlushProcessedFrames tb) \<Longrightarrow> track_ok tb \<Longrightarrow>
   track_ok (snd (MseTrackBuffer_FlushProcessedFrames tb))"
  by (auto simp add: MseTrackBuffer_FlushProcessedFrames_def Append_def Let_def append_call_ok_def
      track_ok_def split: if_splits)

lemma track_ok_notify:
  "track_ok tb \<Longrightarrow> track_ok (MseTrackBuffer_NotifyStartOfCodedFrameGroup start_time tb)"
  by (simp add: MseTrackBuffer_NotifyStartOfCodedFrameGroup_def append_call_ok_def track_ok_def)

lemma track_ok_stream:
  "stream tb' = stream tb \<Longrightarrow> track_ok tb' = track_ok tb"
  by (simp add: track_ok_def)

lemma nfa_track_buffers:
  "track_buffers s' = track_buffers s \<Longrightarrow> no_failed_append s' = no_failed_append s"
  by (simp add: no_failed_append_def)

lemma nfa_on_track:
  assumes "\<And>tb. track_ok tb \<Longrightarrow> track_ok (g tb)" and "no_failed_append s"
  shows "no_failed_append (on_track tid g s)"
  using assms(2) unfolding no_failed_append_def on_track_def list_all_iff
  by (auto simp add: assms(1))

lemma nfa_on_all_tracks:
  assumes "\<And>tb. track_ok tb \<Longrightarrow> track_ok (g tb)" and "no_failed_append s"
  shows "no_failed_append (on_all_tracks g s)"
  using assms(2) unfolding no_failed_append_def on_all_tracks_def list_all_iff
  by (auto simp add: assms(1))

lemma nfa_FlushProcessedFrames:
  assumes "fst (FlushProcessedFrames s)" and "no_failed_append s"
  shows "no_failed_append (snd (FlushProcessedFrames s))"
proof -
  have "track_ok (snd (MseTrackBuffer_FlushProcessedFrames tb))"
    if "(i, tb) \<in> set (track_buffers s)" for i tb
  proof -
    from that assms(1) have "fst (MseTrackBuffer_FlushProcessedFrames tb)"
      by (force simp add: FlushProcessedFrames_def Let_def list_all_iff split_beta)
    moreover from that assms(2) have "track_ok tb"
      by (force simp add: no_failed_append_def list_all_iff)
    ultimately show ?thesis by (rule track_ok_flush)
  qed
  then show ?thesis
    by (auto simp add: FlushProcessedFrames_def Let_def no_failed_append_def list_all_iff)
qed

lemma nfa_Reset:
  "no_failed_append s \<Longrightarrow> no_failed_append (FrameProcessor_Reset s)"
  unfolding FrameProcessor_Reset_def Let_def
  by (auto intro!: nfa_on_all_tracks simp add: track_ok_def MseTrackBuffer_Reset_def
      nfa_track_buffers [of "_\<lparr>pending_notify_all_group_start := True\<rparr>"]
      nfa_track_buffers [of "_\<lparr>group_start_timestamp := _\<rparr>"])

lemma nfa_sanity:
  assumes "ProcessFrame_sanity_and_offset s f off = Go l" and "no_failed_append s"
  shows "no_failed_append (processor l)"
proof -
  have "no_failed_append (SetAllTrackBuffersNeedRandomAccessPoint s)"
    unfolding SetAllTrackBuffersNeedRandomAccessPoint_def
    using assms(2) by (auto intro!: nfa_on_all_tracks simp add: track_ok_def)
  with ProcessFrame_sanity_Go_tracks [OF assms(1)] assms(2) show ?thesis
    using nfa_track_buffers by metis
qed

lemma nfa_discontinuity:
  "ProcessFrame_track_and_discontinuity l = Stop (Again s' off' f') \<Longrightarrow>
   no_failed_append (processor l) \<Longrightarrow> no_failed_append s'"
  by (auto simp add: ProcessFrame_track_and_discontinuity_def Let_def
      nfa_track_buffers [of "_\<lparr>group_end_timestamp := _\<rparr>"]
      split: option.splits if_splits intro!: nfa_Reset)

lemma nfa_append_window:
  "ProcessFrame_append_window ws we l tb = Stop (Done b s' off') \<Longrightarrow>
   no_failed_append (processor l) \<Longrightarrow> no_failed_append s'"
  "ProcessFrame_append_window ws we l tb = Go (l', fe) \<Longrightarrow>
   no_failed_append (processor l) \<Longrightarrow> no_failed_append (processor l')"
  by (auto simp add: ProcessFrame_append_window_def Let_def split_beta track_ok_def
      nfa_track_buffers [OF HandlePartialAppendWindowTrimming_keeps(1)]
      split: if_splits intro!: nfa_on_track)

lemma nfa_enqueue:
  "no_failed_append s \<Longrightarrow> no_failed_append (ProcessFrame_enqueue l fe s)"
  unfolding ProcessFrame_enqueue_def Let_def
  by (auto intro!: nfa_on_track simp add: track_ok_def
      nfa_track_buffers [of "_\<lparr>group_end_timestamp := _\<rparr>"]
      SetHighestPresentationTimestampIfIncreased_def EnqueueProcessedFrame_def)

lemma nfa_emit:
  assumes "ProcessFrame_emit l tb fe = Done True s' off'" and "no_failed_append (processor l)"
  shows "no_failed_append s'"
proof -
  define s1 where "s1 = (if needs_random_access_point tb
             then on_track (track_id (frame l))
                    (\<lambda>tb. tb\<lparr>needs_random_access_point := False\<rparr>) (processor l)
             else processor l)"
  have s1: "no_failed_append s1"
    unfolding s1_def using assms(2) by (auto intro!: nfa_on_track simp add: track_ok_def)
  have flush: "no_failed_append (snd (FlushProcessedFrames s1))" if "fst (FlushProcessedFrames s1)"
    using that s1 by (rule nfa_FlushProcessedFrames)
  have notify_all: "no_failed_append
      ((NotifyStartOfCodedFrameGroup ts s2)\<lparr>pending_notify_all_group_start := False\<rparr>)"
    if "no_failed_append s2" for ts s2
    unfolding NotifyStartOfCodedFrameGroup_def
    using that
    by (auto intro!: nfa_on_all_tracks track_ok_notify
        simp add: nfa_track_buffers [of "_\<lparr>pending_notify_all_group_start := False\<rparr>"])
  have notify_one: "no_failed_append
      (on_track tid (MseTrackBuffer_NotifyStartOfCodedFrameGroup ts) s2)"
    if "no_failed_append s2" for ts s2 tid
    using that by (auto intro!: nfa_on_track track_ok_notify)
  from assms(1) show ?thesis
    unfolding ProcessFrame_emit_def Let_def s1_def [symmetric]
    using s1 flush notify_all notify_one assms(2)
    by (auto simp add: split_beta split: if_splits intro!: nfa_enqueue)
qed

lemma ProcessFrame_discontinuity_Done:
  "ProcessFrame_track_and_discontinuity l = Stop (Done b s' off') \<Longrightarrow> \<not> b"
  by (auto simp add: ProcessFrame_track_and_discontinuity_def Let_def
      split: option.splits if_splits)

lemma nfa_iteration_Done:
  assumes "ProcessFrame_iteration s f ws we off = Done True s' off'" and "no_failed_append s"
  shows "no_failed_append s'"
proof (cases "ProcessFrame_sanity_and_offset s f off")
  case (Stop r)
  with assms(1) ProcessFrame_sanity_Stop [OF Stop] show ?thesis
    by (auto simp add: ProcessFrame_iteration_def)
next
  case (Go l)
  have l: "no_failed_append (processor l)"
    using Go assms(2) by (rule nfa_sanity)
  show ?thesis
  proof (cases "ProcessFrame_track_and_discontinuity l")
    case (Stop r)
    with assms(1) Go ProcessFrame_discontinuity_Done [of l] show ?thesis
      by (auto simp add: ProcessFrame_iteration_def)
  next
    case Go2: (Go p)
    obtain l1 tb where p: "p = (l1, tb)" by (cases p)
    with Go2 have l1: "l1 = l" by (simp add: keeps_discontinuity(3))
    show ?thesis
    proof (cases "ProcessFrame_append_window ws we l tb")
      case (Stop r)
      with assms(1) Go Go2 p l1 have "ProcessFrame_append_window ws we l tb = Stop (Done True s' off')"
        by (simp add: ProcessFrame_iteration_def)
      then show ?thesis using l by (rule nfa_append_window(1))
    next
      case Go3: (Go q)
      obtain l2 fe where q: "q = (l2, fe)" by (cases q)
      have "no_failed_append (processor l2)"
        using Go3 l unfolding q by (rule nfa_append_window(2))
      moreover from assms(1) Go Go2 p l1 Go3 q have "ProcessFrame_emit l2 tb fe = Done True s' off'"
        by (simp add: ProcessFrame_iteration_def)
      ultimately show ?thesis using nfa_emit by blast
    qed
  qed
qed

lemma nfa_iteration_Again:
  assumes "ProcessFrame_iteration s f ws we off = Again s' off' f'" and "no_failed_append s"
  shows "no_failed_append s'"
proof -
  from assms(1) obtain l where
    go: "ProcessFrame_sanity_and_offset s f off = Go l" and
    disc: "ProcessFrame_track_and_discontinuity l = Stop (Again s' off' f')"
    using ProcessFrame_iteration_Again by blast
  from go assms(2) have "no_failed_append (processor l)" by (rule nfa_sanity)
  with disc show ?thesis by (rule nfa_discontinuity)
qed

lemma nfa_ProcessFrame:
  assumes "ProcessFrame s f ws we off = (True, s', off')" and "no_failed_append s"
  shows "no_failed_append s'"
  using ProcessFrame_cases [OF assms(1)] assms(2)
  by (auto dest: nfa_iteration_Done nfa_iteration_Again)

lemma nfa_ProcessFrames_loop:
  "fst (ProcessFrames_loop s frames ws we off) \<Longrightarrow> no_failed_append s \<Longrightarrow>
   no_failed_append (fst (snd (ProcessFrames_loop s frames ws we off)))"
proof (induction frames arbitrary: s off)
  case Nil
  then show ?case by simp
next
  case (Cons g frames)
  obtain ok s1 off1 where pf: "ProcessFrame s g ws we off = (ok, s1, off1)"
    by (cases "ProcessFrame s g ws we off") auto
  show ?case
  proof (cases ok)
    case False
    with pf Cons.prems show ?thesis by simp
  next
    case True
    with pf have "ProcessFrame s g ws we off = (True, s1, off1)" by simp
    then have "no_failed_append s1"
      using Cons.prems(2) by (rule nfa_ProcessFrame)
    with Cons.IH [of s1 off1] Cons.prems(1) pf True show ?thesis by simp
  qed
qed


definition fresh_processor :: FrameProcessor where
  "fresh_processor =
     \<lparr> track_buffers = [(1, MseTrackBuffer_new example_stream)],
       sequence_mode = False,
       group_start_timestamp = kNoTimestamp,
       group_end_timestamp = 0,
       pending_notify_all_group_start = True,
       audio_preroll_buffer = None,
       sample_duration = 0,
       num_dropped_preroll_warnings = 0,
       num_dts_beyond_pts_warnings = 0,
       num_audio_non_keyframe_warnings = 0,
       num_muxed_sequence_mode_warnings = 0,
       duration_updates = [] \<rparr>"

lemmas ProcessFrame_defs =
  ProcessFrame_iteration_def ProcessFrame_sanity_and_offset_def
  ProcessFrame_sequence_offset_def ProcessFrame_track_and_discontinuity_def
  ProcessFrame_append_window_def ProcessFrame_emit_def ProcessFrame_enqueue_def
  HandlePartialAppendWindowTrimming_def
  FindTrack_def track_ops MseTrackBuffer_FlushProcessedFrames_def Append_def
  MseTrackBuffer_NotifyStartOfCodedFrameGroup_def MseTrackBuffer_Reset_def
  EnqueueProcessedFrame_def SetHighestPresentationTimestampIfIncreased_def
  LIMITED_MEDIA_LOG_def kNoTimestamp_def kNoDecodeTimestamp_def Let_def

lemmas example_defs =
  fresh_processor_def example_processor_def example_frame_def example_stream_def
  MseTrackBuffer_new_def

lemma ProcessFrame_unfold:
  "ProcessFrame s f ws we off =
     (case ProcessFrame_iteration s f ws we off of
        Done b s' off' \<Rightarrow> (b, s', off')
      | Again s' off' f' \<Rightarrow> ProcessFrame s' f' ws we off')"
  by (simp add: ProcessFrame_def ProcessFrame_loop.simps [of s f] split_beta
      split: Iteration.splits)

text \<open>
  C3, as stated, fails in its last part: a batch that fails is not undone. A fresh processor
  with one video track is given a key frame followed by a frame of negative duration. The call
  returns failure, and the sink has been told of the group start and has received the first
  frame.
\<close>

theorem ProcessFrames_not_atomic:
  "fst (ProcessFrames fresh_processor
          (Some [example_frame 0 0 10 True, example_frame 10 10 (- 1) False]) 0 1000 0) = False
   \<and> map (events \<circ> stream \<circ> snd)
         (track_buffers (fst (snd (ProcessFrames fresh_processor
            (Some [example_frame 0 0 10 True, example_frame 10 10 (- 1) False]) 0 1000 0))))
       = [[OnStartOfCodedFrameGroup 0, AppendCall [example_frame 0 0 10 True] True]]
   \<and> map (events \<circ> stream \<circ> snd) (track_buffers fresh_processor) = [[]]"
  by (simp add: ProcessFrames_def ProcessFrames_muxed_warning_def ProcessFrame_unfold
      ProcessFrame_defs example_defs)


lemma muxed_warning_keeps:
  "frame_rejected (ProcessFrames_muxed_warning s) f = frame_rejected s f"
  "no_failed_append (ProcessFrames_muxed_warning s) = no_failed_append s"
  "duration_updates (ProcessFrames_muxed_warning s) = duration_updates s"
  by (simp_all add: ProcessFrames_muxed_warning_def frame_rejected_def FindTrack_def
      no_failed_append_def)

text \<open>
  C3, amended. \<^verbatim>\<open>ProcessFrames\<close> returns failure when the queues cannot be merged and whenever a
  frame of the batch has an unset presentation timestamp, decode timestamp or duration, a
  negative duration, an unknown track id or a type other than its track's; nothing after such a
  frame is processed (the frames after it do not matter to the outcome); a call that succeeds has
  seen no \<^verbatim>\<open>Append\<close> of a sink fail; and the duration update runs once, with the final group end,
  on success and not at all on failure. The frames staged before the failure are still flushed
  to their sinks and the changes to the processor stay: the batch is not rolled back.
\<close>

theorem ProcessFrames_failure:
  "(frame_rejected s f \<and> f \<in> set frames \<longrightarrow>
      fst (ProcessFrames s (Some frames) ws we off) = False)
   \<and> fst (ProcessFrames s None ws we off) = False
   \<and> (frame_rejected s f \<longrightarrow>
        ProcessFrames s (Some (pre @ f # rest)) ws we off
          = ProcessFrames s (Some (pre @ [f])) ws we off)
   \<and> (no_failed_append s \<and> fst (ProcessFrames s merged ws we off) \<longrightarrow>
        no_failed_append (fst (snd (ProcessFrames s merged ws we off))))
   \<and> duration_updates (fst (snd (ProcessFrames s merged ws we off)))
       = (if fst (ProcessFrames s merged ws we off)
          then duration_updates s
                 @ [group_end_timestamp (fst (snd (ProcessFrames s merged ws we off)))]
          else duration_updates s)"
proof (intro conjI impI)
  assume "frame_rejected s f \<and> f \<in> set frames"
  then show "fst (ProcessFrames s (Some frames) ws we off) = False"
    using frame_rejected_ProcessFrames_loop
        [of "ProcessFrames_muxed_warning s" f frames ws we off]
    by (simp add: ProcessFrames_def Let_def split_beta muxed_warning_keeps)
next
  show "fst (ProcessFrames s None ws we off) = False"
    by (simp add: ProcessFrames_def)
next
  assume "frame_rejected s f"
  then show "ProcessFrames s (Some (pre @ f # rest)) ws we off
          = ProcessFrames s (Some (pre @ [f])) ws we off"
    using frame_rejected_stops_batch
        [of "ProcessFrames_muxed_warning s" f pre rest ws we off]
    by (simp add: ProcessFrames_def Let_def muxed_warning_keeps)
next
  assume a: "no_failed_append s \<and> fst (ProcessFrames s merged ws we off)"
  show "no_failed_append (fst (snd (ProcessFrames s merged ws we off)))"
  proof (cases merged)
    case None
    with a show ?thesis by (simp add: ProcessFrames_def)
  next
    case (Some frames)
    define s1 where "s1 = ProcessFrames_muxed_warning s"
    have s1: "no_failed_append s1"
      using a by (simp add: s1_def muxed_warning_keeps)
    obtain ok s2 off2 where loop: "ProcessFrames_loop s1 frames ws we off = (ok, s2, off2)"
      by (cases "ProcessFrames_loop s1 frames ws we off") auto
    from a Some loop have ok: ok
      by (auto simp add: ProcessFrames_def Let_def s1_def [symmetric] split: if_splits)
    with nfa_ProcessFrames_loop [of s1 frames ws we off] s1 loop have s2: "no_failed_append s2"
      by simp
    from a Some loop ok have fl: "fst (FlushProcessedFrames s2)"
      by (auto simp add: ProcessFrames_def Let_def s1_def [symmetric] split_beta split: if_splits)
    then have "no_failed_append (snd (FlushProcessedFrames s2))"
      using s2 by (rule nfa_FlushProcessedFrames)
    with Some loop ok fl show ?thesis
      by (simp add: ProcessFrames_def Let_def s1_def [symmetric] split_beta no_failed_append_def)
  qed
next
  show "duration_updates (fst (snd (ProcessFrames s merged ws we off)))
       = (if fst (ProcessFrames s merged ws we off)
          then duration_updates s
                 @ [group_end_timestamp (fst (snd (ProcessFrames s merged ws we off)))]
          else duration_updates s)"
    by (simp add: ProcessFrames_def Let_def split_beta duration_updates_ProcessFrames_loop
        keeps_FlushProcessedFrames muxed_warning_keeps split: option.splits)
qed

theorem ProcessFrames_failure_witness:
  "frame_rejected fresh_processor (example_frame 10 10 (- 1) False)
   \<and> example_frame 10 10 (- 1) False
        \<in> set [example_frame 0 0 10 True, example_frame 10 10 (- 1) False]
   \<and> fst (ProcessFrames fresh_processor
        (Some [example_frame 0 0 10 True, example_frame 10 10 (- 1) False]) 0 1000 0) = False
   \<and> ProcessFrames fresh_processor
        (Some ([example_frame 0 0 10 True] @ example_frame 10 10 (- 1) False
                 # [example_frame 20 20 10 True])) 0 1000 0
      = ProcessFrames fresh_processor
          (Some ([example_frame 0 0 10 True] @ [example_frame 10 10 (- 1) False])) 0 1000 0
   \<and> no_failed_append fresh_processor
   \<and> fst (ProcessFrames fresh_processor (Some [example_frame 0 0 10 True]) 0 1000 0)
   \<and> no_failed_append
        (fst (snd (ProcessFrames fresh_processor (Some [example_frame 0 0 10 True]) 0 1000 0)))"
proof -
  have rejected: "frame_rejected fresh_processor (example_frame 10 10 (- 1) False)"
    by (simp add: frame_rejected_def example_defs)
  have ok: "no_failed_append fresh_processor"
    by (simp add: no_failed_append_def track_ok_def example_defs)
  have accepted:
    "fst (ProcessFrames fresh_processor (Some [example_frame 0 0 10 True]) 0 1000 0)"
    by (simp add: ProcessFrames_def ProcessFrames_muxed_warning_def ProcessFrame_unfold
      ProcessFrame_defs example_defs)
  show ?thesis
    using rejected ok accepted
      ProcessFrames_failure [of fresh_processor "example_frame 10 10 (- 1) False"
        "[example_frame 0 0 10 True, example_frame 10 10 (- 1) False]" 0 1000 0
        "[example_frame 0 0 10 True]" "[example_frame 20 20 10 True]"
        "Some [example_frame 0 0 10 True]"]
    by simp
qed

subsection \<open>The offset in sequence mode\<close>











subsection \<open>Frames that reach the checks after the append window\<close>























subsection \<open>The random access point gate\<close>























section \<open>SourceBufferRangeByPts\<close>

text \<open>
  A range holds its frames in decode order (\<^verbatim>\<open>buffers_\<close>), the key frame index
  (\<^verbatim>\<open>keyframe_map_\<close>, a \<^verbatim>\<open>std::map\<close> from decode timestamp to position plus
  \<^verbatim>\<open>keyframe_map_index_base_\<close>: an association list in increasing key order), the seek cursor, the
  byte count, the range start and the frame with the highest end time. A call that would fail a
  \<^verbatim>\<open>CHECK\<close> or read a container outside its bounds has the result \<open>None\<close>.

  The base class \<^verbatim>\<open>SourceBufferRange\<close> is not among the sources. Its helpers that are used here are
  modelled from the spec (\<open>UpdateEndTime\<close>, \<open>FreeBufferRange\<close>) or taken as parameters: the
  answer of \<^verbatim>\<open>IsNextInDecodeSequence\<close>, as a function of the frames of the range and of the
  timestamp asked about, and the value of \<^verbatim>\<open>GetApproximateDuration()\<close>.
\<close>

record SourceBufferRangeByPts =
  buffers :: BufferQueue
  keyframe_map :: "(int \<times> int) list"
  keyframe_map_index_base :: int
  next_buffer_index :: int
  size_in_bytes :: nat
  range_start_decode_time :: int
  highest_frame :: "StreamParserBuffer option"

fun keyframe_map_insert :: "int \<Rightarrow> int \<Rightarrow> (int \<times> int) list \<Rightarrow> (int \<times> int) list" where
  \<comment> \<open>\<^verbatim>\<open>std::map::insert\<close>: an entry whose key is present stays as it is\<close>
  "keyframe_map_insert k v [] = [(k, v)]"
| "keyframe_map_insert k v ((k', v') # m) =
     (if k < k' then (k, v) # (k', v') # m
      else if k = k' then (k', v') # m
      else (k', v') # keyframe_map_insert k v m)"

definition lower_bound :: "(int \<times> int) list \<Rightarrow> int \<Rightarrow> nat" where
  \<comment> \<open>the position of the first entry whose key is not below \<open>ts\<close>; the length stands for \<^verbatim>\<open>end()\<close>\<close>
  "lower_bound m ts = length (takeWhile (\<lambda>(k, v). k < ts) m)"

definition upper_bound :: "(int \<times> int) list \<Rightarrow> int \<Rightarrow> nat" where
  "upper_bound m ts = length (takeWhile (\<lambda>(k, v). k \<le> ts) m)"

definition GetFirstKeyframeAt :: "SourceBufferRangeByPts \<Rightarrow> int \<Rightarrow> bool \<Rightarrow> nat" where
  "GetFirstKeyframeAt r ts skip_given_timestamp =
     (if skip_given_timestamp then upper_bound (keyframe_map r) ts
      else lower_bound (keyframe_map r) ts)"

definition GetFirstKeyframeAtOrBefore :: "SourceBufferRangeByPts \<Rightarrow> int \<Rightarrow> nat" where
  "GetFirstKeyframeAtOrBefore r ts =
     (let result = lower_bound (keyframe_map r) ts
      in if result \<noteq> 0
            \<and> (result = length (keyframe_map r) \<or> fst (keyframe_map r ! result) \<noteq> ts)
         then result - 1 else result)"

definition GetBufferItrAt :: "SourceBufferRangeByPts \<Rightarrow> int \<Rightarrow> bool \<Rightarrow> nat" where
  \<comment> \<open>\<^verbatim>\<open>std::lower_bound\<close> and \<^verbatim>\<open>std::upper_bound\<close> over \<^verbatim>\<open>buffers_\<close>, which is in decode order\<close>
  "GetBufferItrAt r ts skip_given_timestamp =
     (if skip_given_timestamp
      then length (takeWhile (\<lambda>b. GetDecodeTimestamp b \<le> ts) (buffers r))
      else length (takeWhile (\<lambda>b. GetDecodeTimestamp b < ts) (buffers r)))"

definition UpdateEndTime :: "StreamParserBuffer \<Rightarrow> SourceBufferRangeByPts \<Rightarrow> SourceBufferRangeByPts" where
  \<comment> \<open>Modelled from the spec: \<^verbatim>\<open>SourceBufferRange::UpdateEndTime\<close> is not among the sources. The
      cached frame is the one with the largest presentation timestamp plus duration seen.\<close>
  "UpdateEndTime new_buffer r =
     (case highest_frame r of
        None \<Rightarrow> r\<lparr>highest_frame := Some new_buffer\<rparr>
      | Some h \<Rightarrow>
          if timestamp h + duration h < timestamp new_buffer + duration new_buffer
          then r\<lparr>highest_frame := Some new_buffer\<rparr> else r)"

definition FreeBufferRange :: "nat \<Rightarrow> SourceBufferRangeByPts \<Rightarrow> SourceBufferRangeByPts" where
  \<comment> \<open>Modelled from the spec: \<^verbatim>\<open>SourceBufferRange::FreeBufferRange\<close> is not among the sources. It
      removes the frames from the given position to the end and takes their sizes off the byte
      count.\<close>
  "FreeBufferRange starting_point r =
     r\<lparr> size_in_bytes :=
           size_in_bytes r - sum_list (map data_size (drop starting_point (buffers r))),
         buffers := take starting_point (buffers r) \<rparr>"

definition UpdateEndTimeUsingLastGOP :: "SourceBufferRangeByPts \<Rightarrow> SourceBufferRangeByPts option" where
  "UpdateEndTimeUsingLastGOP r =
     (if buffers r = [] then Some (r\<lparr>highest_frame := None\<rparr>)
      else if keyframe_map r = [] then None
      else
        (let first_of_last_gop = snd (last (keyframe_map r)) - keyframe_map_index_base r
         in if first_of_last_gop < 0 \<or> first_of_last_gop > int (length (buffers r)) then None
            else Some (fold UpdateEndTime (drop (nat first_of_last_gop) (buffers r))
                         (r\<lparr>highest_frame := None\<rparr>))))"

definition AppendBuffer :: "StreamParserBuffer \<Rightarrow> SourceBufferRangeByPts \<Rightarrow> SourceBufferRangeByPts" where
  \<comment> \<open>one turn of the loop of \<^verbatim>\<open>AppendBuffersToEnd\<close> (lines 68-81)\<close>
  "AppendBuffer b r =
     (let r1 = UpdateEndTime b (r\<lparr>buffers := buffers r @ [b]\<rparr>);
          r2 = r1\<lparr>size_in_bytes := size_in_bytes r1 + data_size b\<rparr>
      in if is_key_frame b
         then r2\<lparr>keyframe_map :=
                   keyframe_map_insert (GetDecodeTimestamp b)
                     (int (length (buffers r2)) - 1 + keyframe_map_index_base r2)
                     (keyframe_map r2)\<rparr>
         else r2)"

definition CanAppendBuffersToEnd ::
  "(BufferQueue \<Rightarrow> int \<Rightarrow> bool) \<Rightarrow> SourceBufferRangeByPts \<Rightarrow> BufferQueue \<Rightarrow> int
     \<Rightarrow> bool option" where
  "CanAppendBuffersToEnd IsNextInDecodeSequence r new_buffers new_buffers_group_start_timestamp =
     (if new_buffers_group_start_timestamp = kNoDecodeTimestamp
      then (case new_buffers of
              [] \<Rightarrow> None
            | b # bs \<Rightarrow> Some (IsNextInDecodeSequence (buffers r) (GetDecodeTimestamp b)))
      else Some (IsNextInDecodeSequence (buffers r) new_buffers_group_start_timestamp))"

definition AppendBuffersToEnd ::
  "(BufferQueue \<Rightarrow> int \<Rightarrow> bool) \<Rightarrow> SourceBufferRangeByPts \<Rightarrow> BufferQueue \<Rightarrow> int
     \<Rightarrow> SourceBufferRangeByPts option" where
  "AppendBuffersToEnd IsNextInDecodeSequence r new_buffers new_buffers_group_start_timestamp =
     (if buffers r = []
         \<or> CanAppendBuffersToEnd IsNextInDecodeSequence r new_buffers
              new_buffers_group_start_timestamp = Some True
      then Some (fold AppendBuffer new_buffers r)
      else None)"

definition SourceBufferRangeByPts_new ::
  "(BufferQueue \<Rightarrow> int \<Rightarrow> bool) \<Rightarrow> BufferQueue \<Rightarrow> int
     \<Rightarrow> SourceBufferRangeByPts option" where
  \<comment> \<open>the constructor (lines 26-37)\<close>
  "SourceBufferRangeByPts_new IsNextInDecodeSequence new_buffers range_start_decode_time0 =
     (if new_buffers = [] then None
      else AppendBuffersToEnd IsNextInDecodeSequence
             \<lparr> buffers = [], keyframe_map = [], keyframe_map_index_base = 0,
               next_buffer_index = - 1, size_in_bytes = 0,
               range_start_decode_time = range_start_decode_time0, highest_frame = None \<rparr>
             new_buffers range_start_decode_time0)"


definition GetStartTimestamp :: "SourceBufferRangeByPts \<Rightarrow> int option" where
  "GetStartTimestamp r =
     (if range_start_decode_time r \<noteq> kNoDecodeTimestamp then Some (range_start_decode_time r)
      else (case buffers r of [] \<Rightarrow> None | b # bs \<Rightarrow> Some (GetDecodeTimestamp b)))"

definition GetEndTimestamp :: "SourceBufferRangeByPts \<Rightarrow> int option" where
  "GetEndTimestamp r =
     (if buffers r = [] then None else Some (GetDecodeTimestamp (last (buffers r))))"

definition GetBufferedEndTimestamp :: "int \<Rightarrow> SourceBufferRangeByPts \<Rightarrow> int option" where
  \<comment> \<open>\<open>approximate_duration\<close> is the value of \<^verbatim>\<open>GetApproximateDuration()\<close>\<close>
  "GetBufferedEndTimestamp approximate_duration r =
     (if buffers r = [] then None
      else (let d = duration (last (buffers r));
                d1 = (if d = kNoTimestamp \<or> d = 0 then approximate_duration else d)
            in Some (GetDecodeTimestamp (last (buffers r)) + d1)))"

definition outside_range :: "int \<Rightarrow> SourceBufferRangeByPts \<Rightarrow> int \<Rightarrow> bool option" where
  \<comment> \<open>\<^verbatim>\<open>timestamp < GetStartTimestamp() || timestamp >= GetBufferedEndTimestamp()\<close>\<close>
  "outside_range approximate_duration r ts =
     (case GetStartTimestamp r of
        None \<Rightarrow> None
      | Some start \<Rightarrow>
          if ts < start then Some True
          else (case GetBufferedEndTimestamp approximate_duration r of
                  None \<Rightarrow> None
                | Some e \<Rightarrow> Some (ts \<ge> e)))"

definition NextKeyframeTimestamp :: "int \<Rightarrow> SourceBufferRangeByPts \<Rightarrow> int \<Rightarrow> int option" where
  "NextKeyframeTimestamp approximate_duration r ts =
     (case outside_range approximate_duration r ts of
        None \<Rightarrow> None
      | Some True \<Rightarrow> Some kNoDecodeTimestamp
      | Some False \<Rightarrow>
          (let itr = GetFirstKeyframeAt r ts False
           in if itr = length (keyframe_map r) then Some kNoDecodeTimestamp
              else if itr = 0 \<and> ts > range_start_decode_time r
                      \<and> ts < fst (keyframe_map r ! itr)
              then Some ts
              else Some (fst (keyframe_map r ! itr))))"

definition KeyframeBeforeTimestamp :: "int \<Rightarrow> SourceBufferRangeByPts \<Rightarrow> int \<Rightarrow> int option" where
  "KeyframeBeforeTimestamp approximate_duration r ts =
     (case outside_range approximate_duration r ts of
        None \<Rightarrow> None
      | Some True \<Rightarrow> Some kNoDecodeTimestamp
      | Some False \<Rightarrow>
          (let itr = GetFirstKeyframeAtOrBefore r ts
           in if itr < length (keyframe_map r) then Some (fst (keyframe_map r ! itr))
              else None))"



definition DeleteGOPFromFront ::
  "SourceBufferRangeByPts \<Rightarrow> BufferQueue \<Rightarrow> (nat \<times> SourceBufferRangeByPts \<times> BufferQueue) option" where
  \<comment> \<open>the result holds the bytes deleted, the range after the call and \<^verbatim>\<open>*deleted_buffers\<close>\<close>
  "DeleteGOPFromFront r deleted_buffers =
     (case keyframe_map r of
        [] \<Rightarrow> None
      | front # rest \<Rightarrow>
          (let end_index = (case rest of
                              [] \<Rightarrow> int (length (buffers r))
                            | next_keyframe # later \<Rightarrow>
                                snd next_keyframe - keyframe_map_index_base r);
               buffers_deleted = nat end_index
           in if buffers_deleted > length (buffers r) then None
              else
                (let removed = take buffers_deleted (buffers r);
                     total_bytes_deleted = sum_list (map data_size removed);
                     r1 = r\<lparr> keyframe_map := rest,
                             buffers := drop buffers_deleted (buffers r),
                             size_in_bytes := size_in_bytes r - total_bytes_deleted,
                             keyframe_map_index_base :=
                               keyframe_map_index_base r + int buffers_deleted \<rparr>
                 in if next_buffer_index r1 > - 1
                       \<and> next_buffer_index r1 - int buffers_deleted < 0
                    then None
                    else
                      (let r2 = (if next_buffer_index r1 > - 1
                                 then r1\<lparr>next_buffer_index :=
                                          next_buffer_index r1 - int buffers_deleted\<rparr>
                                 else r1);
                           r3 = (if buffers_deleted > 0
                                 then r2\<lparr> range_start_decode_time := kNoDecodeTimestamp,
                                         highest_frame :=
                                           (if buffers r2 = [] then None
                                            else highest_frame r2) \<rparr>
                                 else r2)
                       in Some (total_bytes_deleted, r3, deleted_buffers @ removed)))))"

definition DeleteGOPFromBack ::
  "SourceBufferRangeByPts \<Rightarrow> BufferQueue \<Rightarrow> (nat \<times> SourceBufferRangeByPts \<times> BufferQueue) option" where
  "DeleteGOPFromBack r deleted_buffers =
     (if keyframe_map r = [] then None
      else
        (let goal_size = snd (last (keyframe_map r)) - keyframe_map_index_base r
         in if goal_size < 0 \<or> goal_size > int (length (buffers r)) then None
            else
              (let removed = drop (nat goal_size) (buffers r);
                   total_bytes_deleted = sum_list (map data_size removed);
                   r1 = r\<lparr> keyframe_map := butlast (keyframe_map r),
                           size_in_bytes := size_in_bytes r - total_bytes_deleted,
                           buffers := take (nat goal_size) (buffers r) \<rparr>
               in case UpdateEndTimeUsingLastGOP r1 of
                    None \<Rightarrow> None
                  | Some r2 \<Rightarrow> Some (total_bytes_deleted, r2, removed @ deleted_buffers))))"

fun GetBuffersInRange_loop ::
  "BufferQueue \<Rightarrow> int \<Rightarrow> int \<Rightarrow> BufferQueue \<Rightarrow> bool \<times> BufferQueue" where
  \<comment> \<open>the loop of lines 479-495; the flag says that the loop left through \<^verbatim>\<open>return false\<close>\<close>
  "GetBuffersInRange_loop [] start end_ts out = (False, out)"
| "GetBuffersInRange_loop (buffer # rest) start end_ts out =
     (if duration buffer = kNoTimestamp \<or> duration buffer \<le> 0 then (True, out)
      else if end_of_stream buffer \<or> timestamp buffer \<ge> end_ts then (False, out)
      else if timestamp buffer + duration buffer \<le> start
      then GetBuffersInRange_loop rest start end_ts out
      else GetBuffersInRange_loop rest start end_ts (out @ [buffer]))"

definition GetBuffersInRange ::
  "int \<Rightarrow> SourceBufferRangeByPts \<Rightarrow> int \<Rightarrow> int \<Rightarrow> BufferQueue \<Rightarrow> (bool \<times> BufferQueue) option" where
  \<comment> \<open>the result holds the returned flag and \<^verbatim>\<open>*buffers\<close> after the call\<close>
  "GetBuffersInRange approximate_duration r start end_ts out =
     (case KeyframeBeforeTimestamp approximate_duration r start of
        None \<Rightarrow> None
      | Some first_timestamp \<Rightarrow>
          if first_timestamp = kNoDecodeTimestamp then Some (False, out)
          else
            (let (bailed, out1) =
                   GetBuffersInRange_loop
                     (drop (GetBufferItrAt r first_timestamp False) (buffers r)) start end_ts out
             in if bailed then Some (False, out1)
                else Some (length out < length out1, out1)))"


definition HasNextBufferPosition :: "SourceBufferRangeByPts \<Rightarrow> bool" where
  \<comment> \<open>Modelled from the spec: the base class is not among the sources. The seek cursor is a
      position or "none", which the code writes as -1.\<close>
  "HasNextBufferPosition r = (next_buffer_index r \<ge> 0)"

definition FirstGOPContainsNextBufferPosition :: "SourceBufferRangeByPts \<Rightarrow> bool option" where
  "FirstGOPContainsNextBufferPosition r =
     (if \<not> HasNextBufferPosition r then Some False
      else (case keyframe_map r of
              [] \<Rightarrow> None
            | [front] \<Rightarrow> Some True
            | front # second_gop # later \<Rightarrow>
                Some (next_buffer_index r < snd second_gop - keyframe_map_index_base r)))"

subsection \<open>The invariant of a range\<close>

text \<open>
  The key frame index is in increasing order of timestamp and of position; every entry points to
  a key frame of the range with the entry's decode timestamp; a range with frames starts with an
  indexed key frame; and the byte count is the sum of the frame sizes.
\<close>

definition keyframe_entry_ok :: "SourceBufferRangeByPts \<Rightarrow> int \<times> int \<Rightarrow> bool" where
  "keyframe_entry_ok r e =
     (let k = snd e - keyframe_map_index_base r
      in 0 \<le> k \<and> k < int (length (buffers r))
         \<and> is_key_frame (buffers r ! nat k)
         \<and> GetDecodeTimestamp (buffers r ! nat k) = fst e)"

definition range_wf :: "SourceBufferRangeByPts \<Rightarrow> bool" where
  "range_wf r =
     (sorted_wrt (<) (map fst (keyframe_map r))
      \<and> sorted_wrt (<) (map snd (keyframe_map r))
      \<and> list_all (keyframe_entry_ok r) (keyframe_map r)
      \<and> (buffers r = [] \<or> (keyframe_map r \<noteq> []
            \<and> snd (hd (keyframe_map r)) = keyframe_map_index_base r))
      \<and> size_in_bytes r = sum_list (map data_size (buffers r)))"

lemma sum_list_take_drop:
  "sum_list (map f (take n xs)) + sum_list (map f (drop n xs)) = (sum_list (map f xs) :: nat)"
  by (metis append_take_drop_id map_append sum_list_append)

lemma range_wf_first_key_frame:
  assumes "range_wf r" and "buffers r \<noteq> []"
  shows "is_key_frame (hd (buffers r))"
    and "keyframe_map r \<noteq> []"
    and "fst (hd (keyframe_map r)) = GetDecodeTimestamp (hd (buffers r))"
    and "snd (hd (keyframe_map r)) = keyframe_map_index_base r"
proof -
  from assms have m: "keyframe_map r \<noteq> []"
    and base: "snd (hd (keyframe_map r)) = keyframe_map_index_base r"
    by (auto simp add: range_wf_def)
  from assms(1) m have "keyframe_entry_ok r (hd (keyframe_map r))"
    by (cases "keyframe_map r") (auto simp add: range_wf_def)
  with base assms(2) show "is_key_frame (hd (buffers r))"
    and "fst (hd (keyframe_map r)) = GetDecodeTimestamp (hd (buffers r))"
    by (simp_all add: keyframe_entry_ok_def hd_conv_nth)
  show "keyframe_map r \<noteq> []" by (rule m)
  show "snd (hd (keyframe_map r)) = keyframe_map_index_base r" by (rule base)
qed


lemma keyframe_entry_ok_drop:
  assumes "keyframe_entry_ok r e" and "int n \<le> snd e - keyframe_map_index_base r"
    and "buffers r' = drop n (buffers r)"
    and "keyframe_map_index_base r' = keyframe_map_index_base r + int n"
  shows "keyframe_entry_ok r' e"
proof -
  define k where "k = nat (snd e - keyframe_map_index_base r)"
  from assms(1,2) have k: "snd e - keyframe_map_index_base r = int k" "n \<le> k"
    "k < length (buffers r)" "is_key_frame (buffers r ! k)"
    "GetDecodeTimestamp (buffers r ! k) = fst e"
    by (auto simp add: keyframe_entry_ok_def Let_def k_def)
  have idx: "snd e - keyframe_map_index_base r' = int (k - n)"
    using k(1,2) assms(4) by simp
  have nth: "buffers r' ! (k - n) = buffers r ! k"
    using k(2,3) by (simp add: assms(3))
  have len: "k - n < length (buffers r')"
    using k(2,3) by (simp add: assms(3))
  show ?thesis
    unfolding keyframe_entry_ok_def Let_def idx nat_int nth
    using k(4,5) len by simp
qed

lemma keyframe_entry_ok_take:
  assumes "keyframe_entry_ok r e" and "snd e - keyframe_map_index_base r < int g"
    and "buffers r' = take g (buffers r)"
    and "keyframe_map_index_base r' = keyframe_map_index_base r"
  shows "keyframe_entry_ok r' e"
  using assms by (auto simp add: keyframe_entry_ok_def Let_def)

lemma DeleteGOPFromFront_wf:
  assumes wf: "range_wf r" and ne: "buffers r \<noteq> []"
    and cur: "FirstGOPContainsNextBufferPosition r = Some False"
  shows "\<exists>removed r'.
           DeleteGOPFromFront r deleted
             = Some (sum_list (map data_size removed), r', deleted @ removed)
           \<and> buffers r = removed @ buffers r' \<and> removed \<noteq> []
           \<and> is_key_frame (hd removed)
           \<and> keyframe_map r' = tl (keyframe_map r)
           \<and> (buffers r' = [] \<or> is_key_frame (hd (buffers r')))
           \<and> size_in_bytes r' + sum_list (map data_size removed) = size_in_bytes r
           \<and> highest_frame r' = (if buffers r' = [] then None else highest_frame r)
           \<and> range_wf r'"
proof -
  note first = range_wf_first_key_frame [OF wf ne]
  obtain e0 rest where m: "keyframe_map r = e0 # rest"
    using first(2) by (cases "keyframe_map r") auto
  have e0: "snd e0 = keyframe_map_index_base r"
    using first(4) m by simp
  define end_index where
    "end_index = (case rest of [] \<Rightarrow> int (length (buffers r))
                  | next_keyframe # later \<Rightarrow> snd next_keyframe - keyframe_map_index_base r)"
  define n where "n = nat end_index"
  have sorted_snd: "sorted_wrt (<) (map snd (e0 # rest))"
    and entries: "list_all (keyframe_entry_ok r) (e0 # rest)"
    and sorted_fst: "sorted_wrt (<) (map fst (e0 # rest))"
    and size: "size_in_bytes r = sum_list (map data_size (buffers r))"
    using wf m by (simp_all add: range_wf_def)
  have n: "0 < n" "n \<le> length (buffers r)" "end_index = int n"
    and rest_empty: "rest = [] \<longrightarrow> n = length (buffers r)"
    and rest_first: "rest \<noteq> [] \<longrightarrow> snd (hd rest) = keyframe_map_index_base r + int n
                       \<and> n < length (buffers r)"
  proof -
    show "0 < n" "n \<le> length (buffers r)" "end_index = int n"
      and "rest = [] \<longrightarrow> n = length (buffers r)"
      and "rest \<noteq> [] \<longrightarrow> snd (hd rest) = keyframe_map_index_base r + int n
                       \<and> n < length (buffers r)"
      using ne sorted_snd entries e0
      by (cases rest; auto simp add: n_def end_index_def keyframe_entry_ok_def Let_def)+
  qed
  have cursor: "next_buffer_index r > - 1 \<longrightarrow> \<not> next_buffer_index r - int n < 0"
    using cur m n(3) unfolding FirstGOPContainsNextBufferPosition_def HasNextBufferPosition_def
    by (cases rest) (auto simp add: end_index_def split: if_splits)
  define removed where "removed = take n (buffers r)"
  define r' where
    "r' = r\<lparr> keyframe_map := rest,
             buffers := drop n (buffers r),
             size_in_bytes := size_in_bytes r - sum_list (map data_size removed),
             keyframe_map_index_base := keyframe_map_index_base r + int n,
             next_buffer_index :=
               (if next_buffer_index r > - 1 then next_buffer_index r - int n
                else next_buffer_index r),
             range_start_decode_time := kNoDecodeTimestamp,
             highest_frame := (if drop n (buffers r) = [] then None else highest_frame r) \<rparr>"
  have result: "DeleteGOPFromFront r deleted
             = Some (sum_list (map data_size removed), r', deleted @ removed)"
  proof (cases rest)
    case Nil
    with n(1,2) cursor show ?thesis
      by (simp add: DeleteGOPFromFront_def m Let_def end_index_def n_def removed_def r'_def)
  next
    case (Cons e1 later)
    with n(1,2) cursor show ?thesis
      by (simp add: DeleteGOPFromFront_def m Let_def end_index_def n_def removed_def r'_def)
  qed
  have split: "buffers r = removed @ buffers r'"
    by (simp add: removed_def r'_def)
  have removed: "removed \<noteq> []" "hd removed = hd (buffers r)"
    using n(1) ne by (simp_all add: removed_def)
  have bytes: "size_in_bytes r' + sum_list (map data_size removed) = size_in_bytes r"
    using sum_list_take_drop [of data_size n "buffers r"]
    by (simp add: r'_def removed_def size)
  have wf': "range_wf r'"
  proof -
    have "keyframe_entry_ok r' e" if "e \<in> set rest" for e
    proof -
      from that entries have ok: "keyframe_entry_ok r e"
        by (simp add: list_all_iff)
      from that rest_first sorted_snd have "keyframe_map_index_base r + int n \<le> snd e"
        by (cases rest) auto
      then show ?thesis
        by (intro keyframe_entry_ok_drop [OF ok, of n]) (simp_all add: r'_def)
    qed
    moreover have "buffers r' = [] \<or> (rest \<noteq> []
            \<and> snd (hd rest) = keyframe_map_index_base r + int n)"
      using rest_empty rest_first by (cases rest) (simp_all add: r'_def)
    moreover have "size_in_bytes r' = sum_list (map data_size (buffers r'))"
      using sum_list_take_drop [of data_size n "buffers r"]
      by (simp add: r'_def removed_def size)
    ultimately show ?thesis
      using sorted_snd sorted_fst
      by (simp add: range_wf_def list_all_iff r'_def)
  qed
  have "buffers r' = [] \<or> is_key_frame (hd (buffers r'))"
    using range_wf_first_key_frame(1) [OF wf'] by blast
  moreover have "keyframe_map r' = tl (keyframe_map r)"
    by (simp add: r'_def m)
  moreover have "highest_frame r' = (if buffers r' = [] then None else highest_frame r)"
    by (simp add: r'_def)
  moreover have "is_key_frame (hd removed)"
    using removed(2) first(1) by simp
  ultimately show ?thesis
    using result split removed(1) bytes wf' by blast
qed


definition highest_end :: "StreamParserBuffer option \<Rightarrow> BufferQueue \<Rightarrow> StreamParserBuffer option" where
  \<comment> \<open>the cached frame after \<^verbatim>\<open>UpdateEndTime\<close> has seen the frames of \<open>xs\<close> in order\<close>
  "highest_end h xs =
     fold (\<lambda>b h. case h of
                   None \<Rightarrow> Some b
                 | Some x \<Rightarrow> if timestamp x + duration x < timestamp b + duration b
                             then Some b else Some x) xs h"

lemma fold_UpdateEndTime:
  "fold UpdateEndTime xs r = r\<lparr>highest_frame := highest_end (highest_frame r) xs\<rparr>"
proof (induction xs arbitrary: r)
  case Nil
  show ?case by (simp add: highest_end_def)
next
  case (Cons b xs)
  have step: "UpdateEndTime b r
       = r\<lparr>highest_frame :=
            (case highest_frame r of
               None \<Rightarrow> Some b
             | Some x \<Rightarrow> if timestamp x + duration x < timestamp b + duration b
                         then Some b else Some x)\<rparr>"
    by (simp add: UpdateEndTime_def split: option.split)
  show ?case
    by (simp add: Cons.IH step highest_end_def)
qed

lemma keyframe_entry_ok_highest_frame:
  "keyframe_entry_ok (r\<lparr>highest_frame := h\<rparr>) = keyframe_entry_ok r"
  by (rule ext) (simp add: keyframe_entry_ok_def)

lemma range_wf_highest_frame:
  "range_wf (r\<lparr>highest_frame := h\<rparr>) = range_wf r"
  by (simp add: range_wf_def keyframe_entry_ok_highest_frame)

lemma UpdateEndTimeUsingLastGOP_wf:
  assumes "range_wf r"
  shows "\<exists>h. UpdateEndTimeUsingLastGOP r = Some (r\<lparr>highest_frame := h\<rparr>)
             \<and> UpdateEndTimeUsingLastGOP (r\<lparr>highest_frame := h\<rparr>)
                 = Some (r\<lparr>highest_frame := h\<rparr>)"
proof (cases "buffers r = []")
  case True
  then show ?thesis
    by (intro exI [of _ None]) (simp add: UpdateEndTimeUsingLastGOP_def)
next
  case False
  with assms have m: "keyframe_map r \<noteq> []"
    by (auto simp add: range_wf_def)
  then have "last (keyframe_map r) \<in> set (keyframe_map r)" by simp
  with assms have "keyframe_entry_ok r (last (keyframe_map r))"
    by (simp add: range_wf_def list_all_iff)
  then have k: "\<not> snd (last (keyframe_map r)) - keyframe_map_index_base r < 0"
    "\<not> snd (last (keyframe_map r)) - keyframe_map_index_base r > int (length (buffers r))"
    by (simp_all add: keyframe_entry_ok_def Let_def)
  define h where
    "h = highest_end None
           (drop (nat (snd (last (keyframe_map r)) - keyframe_map_index_base r)) (buffers r))"
  have "UpdateEndTimeUsingLastGOP r' = Some (r\<lparr>highest_frame := h\<rparr>)"
    if "r' = r\<lparr>highest_frame := h'\<rparr>" for r' h'
    using False m k
    by (simp add: UpdateEndTimeUsingLastGOP_def Let_def fold_UpdateEndTime h_def that)
  from this [of r "highest_frame r"] this [of "r\<lparr>highest_frame := h\<rparr>" h]
  show ?thesis by auto
qed

lemma DeleteGOPFromBack_wf:
  assumes wf: "range_wf r" and ne: "buffers r \<noteq> []"
  shows "\<exists>removed r'.
           DeleteGOPFromBack r deleted
             = Some (sum_list (map data_size removed), r', removed @ deleted)
           \<and> buffers r = buffers r' @ removed \<and> removed \<noteq> []
           \<and> is_key_frame (hd removed)
           \<and> keyframe_map r' = butlast (keyframe_map r)
           \<and> (buffers r' = [] \<or> is_key_frame (hd (buffers r')))
           \<and> size_in_bytes r' + sum_list (map data_size removed) = size_in_bytes r
           \<and> UpdateEndTimeUsingLastGOP r' = Some r'
           \<and> range_wf r'"
proof -
  note first = range_wf_first_key_frame [OF wf ne]
  define m where "m = keyframe_map r"
  define el where "el = last m"
  have m: "m \<noteq> []" "m = butlast m @ [el]"
    using first(2) by (simp_all add: m_def el_def)
  have sorted_snd: "sorted_wrt (<) (map snd m)"
    and sorted_fst: "sorted_wrt (<) (map fst m)"
    and entries: "list_all (keyframe_entry_ok r) m"
    and size: "size_in_bytes r = sum_list (map data_size (buffers r))"
    using wf by (simp_all add: range_wf_def m_def)
  have el_ok: "keyframe_entry_ok r el"
    using entries m(1) by (simp add: list_all_iff el_def)
  define g where "g = nat (snd el - keyframe_map_index_base r)"
  have g: "snd el - keyframe_map_index_base r = int g" "g < length (buffers r)"
    "is_key_frame (buffers r ! g)"
    using el_ok by (auto simp add: keyframe_entry_ok_def Let_def g_def)
  define removed where "removed = drop g (buffers r)"
  define r1 where
    "r1 = r\<lparr> keyframe_map := butlast m,
             size_in_bytes := size_in_bytes r - sum_list (map data_size removed),
             buffers := take g (buffers r) \<rparr>"
  have before: "snd e < snd el" if "e \<in> set (butlast m)" for e
  proof -
    have "sorted_wrt (<) (map snd (butlast m) @ [snd el])"
      using sorted_snd m(2) by (metis list.simps(8,9) map_append)
    with that show ?thesis
      by (simp add: sorted_wrt_append)
  qed
  have wf1: "range_wf r1"
  proof -
    have "keyframe_entry_ok r1 e" if "e \<in> set (butlast m)" for e
    proof -
      from that have "e \<in> set m" by (rule in_set_butlastD)
      with entries have ok: "keyframe_entry_ok r e" by (simp add: list_all_iff)
      from before [OF that] g(1) have "snd e - keyframe_map_index_base r < int g" by simp
      with ok show ?thesis
        by (rule keyframe_entry_ok_take) (simp_all add: r1_def)
    qed
    moreover have "sorted_wrt (<) (map snd (butlast m))" "sorted_wrt (<) (map fst (butlast m))"
      using sorted_wrt_take [of "(<)" "map snd m" "length m - 1"]
        sorted_wrt_take [of "(<)" "map fst m" "length m - 1"] sorted_snd sorted_fst
      by (simp_all add: butlast_conv_take take_map)
    moreover have "take g (buffers r) = [] \<or> (butlast m \<noteq> []
            \<and> snd (hd (butlast m)) = keyframe_map_index_base r)"
    proof (cases "g = 0")
      case True
      then show ?thesis by simp
    next
      case False
      with g(1) first(4) have "hd m \<noteq> el" by (auto simp add: m_def)
      with m have "butlast m \<noteq> []" by (metis append_Nil list.sel(1))
      moreover from this have "hd (butlast m) = hd m"
        by (metis m(2) hd_append2)
      ultimately show ?thesis using first(4) by (simp add: m_def)
    qed
    moreover have "size_in_bytes r1 = sum_list (map data_size (buffers r1))"
      using sum_list_take_drop [of data_size g "buffers r"]
      by (simp add: r1_def removed_def size)
    ultimately show ?thesis
      by (simp add: range_wf_def list_all_iff r1_def)
  qed
  from UpdateEndTimeUsingLastGOP_wf [OF wf1] obtain h where
    h: "UpdateEndTimeUsingLastGOP r1 = Some (r1\<lparr>highest_frame := h\<rparr>)"
      "UpdateEndTimeUsingLastGOP (r1\<lparr>highest_frame := h\<rparr>) = Some (r1\<lparr>highest_frame := h\<rparr>)"
    by blast
  define r' where "r' = r1\<lparr>highest_frame := h\<rparr>"
  have result: "DeleteGOPFromBack r deleted
             = Some (sum_list (map data_size removed), r', removed @ deleted)"
    using m(1) g(1,2) h(1)
    by (simp add: DeleteGOPFromBack_def Let_def m_def [symmetric] el_def [symmetric]
        removed_def [symmetric] r1_def [symmetric] r'_def)
  have split: "buffers r = buffers r' @ removed"
    by (simp add: removed_def r'_def r1_def)
  have removed: "removed \<noteq> []" "is_key_frame (hd removed)"
    using g(2,3) by (simp_all add: removed_def hd_drop_conv_nth)
  have bytes: "size_in_bytes r' + sum_list (map data_size removed) = size_in_bytes r"
    using sum_list_take_drop [of data_size g "buffers r"]
    by (simp add: r'_def r1_def removed_def size)
  have wf': "range_wf r'"
    using wf1 by (simp add: r'_def range_wf_highest_frame)
  have "buffers r' = [] \<or> is_key_frame (hd (buffers r'))"
    using range_wf_first_key_frame(1) [OF wf'] by blast
  moreover have "keyframe_map r' = butlast (keyframe_map r)"
    by (simp add: r'_def r1_def m_def)
  moreover have "UpdateEndTimeUsingLastGOP r' = Some r'"
    using h(2) by (simp add: r'_def)
  ultimately show ?thesis
    using result split removed bytes wf' by blast
qed


text \<open>
  A range of two groups of pictures, as the constructor builds it from a key frame at 0, a
  dependent frame at 10, a key frame at 20 and a dependent frame at 30 (each of duration 10 and
  size 1), with no separate range start.
\<close>

definition example_range :: SourceBufferRangeByPts where
  "example_range =
     \<lparr> buffers = [example_frame 0 0 10 True, example_frame 10 10 10 False,
                  example_frame 20 20 10 True, example_frame 30 30 10 False],
       keyframe_map = [(0, 0), (20, 2)], keyframe_map_index_base = 0,
       next_buffer_index = - 1, size_in_bytes = 4,
       range_start_decode_time = kNoDecodeTimestamp,
       highest_frame = Some (example_frame 30 30 10 False) \<rparr>"

lemmas range_defs =
  AppendBuffer_def UpdateEndTime_def AppendBuffersToEnd_def CanAppendBuffersToEnd_def
  SourceBufferRangeByPts_new_def UpdateEndTimeUsingLastGOP_def FreeBufferRange_def
  GetFirstKeyframeAt_def GetFirstKeyframeAtOrBefore_def lower_bound_def upper_bound_def
  GetBufferItrAt_def GetStartTimestamp_def GetEndTimestamp_def GetBufferedEndTimestamp_def
  outside_range_def HasNextBufferPosition_def FirstGOPContainsNextBufferPosition_def
  kNoTimestamp_def kNoDecodeTimestamp_def Let_def

lemma example_range_constructed:
  "SourceBufferRangeByPts_new IsNextInDecodeSequence
     [example_frame 0 0 10 True, example_frame 10 10 10 False,
      example_frame 20 20 10 True, example_frame 30 30 10 False] kNoDecodeTimestamp
   = Some example_range"
  by (simp add: range_defs example_range_def example_frame_def)

lemma example_range_wf:
  "range_wf example_range" "buffers example_range \<noteq> []"
  "FirstGOPContainsNextBufferPosition example_range = Some False"
  by (simp_all add: range_wf_def keyframe_entry_ok_def example_range_def example_frame_def
      range_defs)

text \<open>
  C6, as stated, fails for \<^verbatim>\<open>DeleteGOPFromBack\<close>: after the last group of pictures of the range
  above is deleted, the range is not empty and its last frame is the dependent frame at 10, not a
  key frame.
\<close>

theorem DeleteGOPFromBack_last_frame_not_key_frame:
  "map_option (buffers \<circ> fst \<circ> snd) (DeleteGOPFromBack example_range [])
     = Some [example_frame 0 0 10 True, example_frame 10 10 10 False]
   \<and> \<not> is_key_frame (last [example_frame 0 0 10 True, example_frame 10 10 10 False])"
  by (simp add: DeleteGOPFromBack_def example_range_def range_defs example_frame_def)

text \<open>
  C6, amended. On a range that satisfies the invariant and has frames, \<^verbatim>\<open>DeleteGOPFromFront\<close>
  (when the first group of pictures does not hold the seek cursor) and \<^verbatim>\<open>DeleteGOPFromBack\<close> each
  remove exactly one group of pictures: the removed frames are a non-empty run at that end of the
  range that starts with a key frame, they are handed to the caller in decode order, the key
  frame index loses exactly its first (last) entry, and the invariant still holds, so the range
  that remains is empty or starts with a key frame and consists of whole groups of pictures.
  After \<^verbatim>\<open>DeleteGOPFromBack\<close> the last remaining frame is the end of the previous group of
  pictures and need not be a key frame. The byte count goes down by the sizes of the removed
  frames, which is the number returned. \<^verbatim>\<open>DeleteGOPFromBack\<close> recomputes the cached end time from
  the last remaining group of pictures; \<^verbatim>\<open>DeleteGOPFromFront\<close> keeps it and clears it when the
  range becomes empty.
\<close>

theorem DeleteGOP_granularity:
  assumes "range_wf r" and "buffers r \<noteq> []"
  shows "(FirstGOPContainsNextBufferPosition r = Some False \<longrightarrow>
            (\<exists>removed r'.
               DeleteGOPFromFront r deleted
                 = Some (sum_list (map data_size removed), r', deleted @ removed)
               \<and> buffers r = removed @ buffers r' \<and> removed \<noteq> []
               \<and> is_key_frame (hd removed)
               \<and> keyframe_map r' = tl (keyframe_map r)
               \<and> (buffers r' = [] \<or> is_key_frame (hd (buffers r')))
               \<and> size_in_bytes r' + sum_list (map data_size removed) = size_in_bytes r
               \<and> highest_frame r' = (if buffers r' = [] then None else highest_frame r)
               \<and> range_wf r'))
         \<and> (\<exists>removed r'.
               DeleteGOPFromBack r deleted
                 = Some (sum_list (map data_size removed), r', removed @ deleted)
               \<and> buffers r = buffers r' @ removed \<and> removed \<noteq> []
               \<and> is_key_frame (hd removed)
               \<and> keyframe_map r' = butlast (keyframe_map r)
               \<and> (buffers r' = [] \<or> is_key_frame (hd (buffers r')))
               \<and> size_in_bytes r' + sum_list (map data_size removed) = size_in_bytes r
               \<and> UpdateEndTimeUsingLastGOP r' = Some r'
               \<and> range_wf r')"
  using DeleteGOPFromFront_wf [OF assms, of deleted] DeleteGOPFromBack_wf [OF assms, of deleted]
  by blast

theorem DeleteGOP_granularity_witness:
  "range_wf example_range \<and> buffers example_range \<noteq> []
   \<and> FirstGOPContainsNextBufferPosition example_range = Some False
   \<and> (\<exists>removed r'.
         DeleteGOPFromFront example_range []
           = Some (sum_list (map data_size removed), r', [] @ removed)
         \<and> buffers example_range = removed @ buffers r' \<and> removed \<noteq> []
         \<and> is_key_frame (hd removed)
         \<and> keyframe_map r' = tl (keyframe_map example_range)
         \<and> (buffers r' = [] \<or> is_key_frame (hd (buffers r')))
         \<and> size_in_bytes r' + sum_list (map data_size removed) = size_in_bytes example_range
         \<and> range_wf r')
   \<and> (\<exists>removed r'.
         DeleteGOPFromBack example_range []
           = Some (sum_list (map data_size removed), r', removed @ [])
         \<and> buffers example_range = buffers r' @ removed \<and> removed \<noteq> []
         \<and> is_key_frame (hd removed)
         \<and> keyframe_map r' = butlast (keyframe_map example_range)
         \<and> (buffers r' = [] \<or> is_key_frame (hd (buffers r')))
         \<and> size_in_bytes r' + sum_list (map data_size removed) = size_in_bytes example_range
         \<and> UpdateEndTimeUsingLastGOP r' = Some r'
         \<and> range_wf r')"
  using DeleteGOP_granularity [OF example_range_wf(1,2), of "[]"] example_range_wf
  by blast

subsection \<open>Key frame queries in the gap at the start of a range\<close>

text \<open>A range whose start, 0, lies before its only frame, a key frame at 10.\<close>

definition gap_range :: SourceBufferRangeByPts where
  "gap_range =
     \<lparr> buffers = [example_frame 10 10 10 True],
       keyframe_map = [(10, 0)], keyframe_map_index_base = 0,
       next_buffer_index = - 1, size_in_bytes = 1,
       range_start_decode_time = 0,
       highest_frame = Some (example_frame 10 10 10 True) \<rparr>"

lemma gap_range_constructed:
  "SourceBufferRangeByPts_new IsNextInDecodeSequence [example_frame 10 10 10 True] 0
   = Some gap_range"
  by (simp add: range_defs gap_range_def example_frame_def)

text \<open>
  C8, as stated, fails for \<^verbatim>\<open>KeyframeBeforeTimestamp\<close>: asked about 5, inside the gap between the
  range start 0 and the first frame at 10, it returns 10, the timestamp of the first key frame.
\<close>

theorem KeyframeBeforeTimestamp_in_gap_returns_first_key_frame:
  "range_start_decode_time gap_range < 5
   \<and> 5 < GetDecodeTimestamp (hd (buffers gap_range))
   \<and> KeyframeBeforeTimestamp 0 gap_range 5 = Some 10"
  by (simp add: KeyframeBeforeTimestamp_def gap_range_def example_frame_def range_defs)

lemma lower_bound_before_first:
  assumes "m \<noteq> []" and "ts \<le> fst (hd m)"
  shows "lower_bound m ts = 0"
  using assms by (cases m) (auto simp add: lower_bound_def)

text \<open>
  C8, amended. For a range that satisfies the invariant, has frames and has a range start set,
  and for every timestamp strictly between the range start and the first frame's decode
  timestamp (and before the buffered end of the range), \<^verbatim>\<open>NextKeyframeTimestamp\<close> returns the
  queried timestamp itself, as if a key frame were there, while \<^verbatim>\<open>KeyframeBeforeTimestamp\<close>
  returns the decode timestamp of the first key frame of the range.
\<close>

theorem keyframe_queries_in_start_gap:
  assumes wf: "range_wf r" and ne: "buffers r \<noteq> []"
    and start: "range_start_decode_time r \<noteq> kNoDecodeTimestamp"
    and gap: "range_start_decode_time r < ts" "ts < GetDecodeTimestamp (hd (buffers r))"
    and buffered: "GetBufferedEndTimestamp d r = Some e" "ts < e"
  shows "NextKeyframeTimestamp d r ts = Some ts
         \<and> KeyframeBeforeTimestamp d r ts = Some (GetDecodeTimestamp (hd (buffers r)))"
proof -
  note first = range_wf_first_key_frame [OF wf ne]
  have inside: "outside_range d r ts = Some False"
    using start gap(1) buffered by (simp add: outside_range_def GetStartTimestamp_def)
  have lb: "lower_bound (keyframe_map r) ts = 0"
    using first(2,3) gap(2) by (intro lower_bound_before_first) simp_all
  have key0: "fst (keyframe_map r ! 0) = GetDecodeTimestamp (hd (buffers r))"
    using first(2,3) by (simp add: hd_conv_nth)
  have "NextKeyframeTimestamp d r ts = Some ts"
    using first(2) gap
    by (simp add: NextKeyframeTimestamp_def inside GetFirstKeyframeAt_def lb key0)
  moreover have "KeyframeBeforeTimestamp d r ts = Some (GetDecodeTimestamp (hd (buffers r)))"
    using first(2)
    by (simp add: KeyframeBeforeTimestamp_def inside GetFirstKeyframeAtOrBefore_def lb key0)
  ultimately show ?thesis by simp
qed

lemma gap_range_wf:
  "range_wf gap_range" "buffers gap_range \<noteq> []"
  "range_start_decode_time gap_range \<noteq> kNoDecodeTimestamp"
  "range_start_decode_time gap_range < 5" "5 < GetDecodeTimestamp (hd (buffers gap_range))"
  "GetBufferedEndTimestamp 0 gap_range = Some 20"
  by (simp_all add: range_wf_def keyframe_entry_ok_def gap_range_def example_frame_def
      range_defs)

theorem keyframe_queries_in_start_gap_witness:
  "range_wf gap_range \<and> buffers gap_range \<noteq> []
   \<and> range_start_decode_time gap_range \<noteq> kNoDecodeTimestamp
   \<and> range_start_decode_time gap_range < 5
   \<and> 5 < GetDecodeTimestamp (hd (buffers gap_range))
   \<and> GetBufferedEndTimestamp 0 gap_range = Some 20 \<and> (5 :: int) < 20
   \<and> NextKeyframeTimestamp 0 gap_range 5 = Some 5
   \<and> KeyframeBeforeTimestamp 0 gap_range 5 = Some (GetDecodeTimestamp (hd (buffers gap_range)))"
  using keyframe_queries_in_start_gap [OF gap_range_wf] gap_range_wf
  by simp


subsection \<open>GetBuffersInRange\<close>

definition overlaps :: "int \<Rightarrow> int \<Rightarrow> StreamParserBuffer \<Rightarrow> bool" where
  \<comment> \<open>the frame's presentation interval meets the interval from \<open>start\<close> to \<open>end_ts\<close>\<close>
  "overlaps start end_ts b = (timestamp b < end_ts \<and> start < timestamp b + duration b)"

definition has_duration :: "StreamParserBuffer \<Rightarrow> bool" where
  "has_duration b = (duration b \<noteq> kNoTimestamp \<and> 0 < duration b)"

lemma GetBuffersInRange_loop_durations:
  "list_all has_duration xs \<Longrightarrow>
   \<exists>added. GetBuffersInRange_loop xs start end_ts out = (False, out @ added)
            \<and> set added \<subseteq> set xs \<and> list_all (overlaps start end_ts) added"
proof (induction xs arbitrary: out)
  case Nil
  show ?case by simp
next
  case (Cons b xs)
  from Cons.prems have xs: "list_all has_duration xs" and "has_duration b"
    by simp_all
  then have b: "duration b \<noteq> kNoTimestamp" "\<not> duration b \<le> 0"
    by (simp_all add: has_duration_def)
  show ?case
  proof (cases "end_of_stream b \<or> timestamp b \<ge> end_ts")
    case True
    with b show ?thesis by simp
  next
    case False
    show ?thesis
    proof (cases "timestamp b + duration b \<le> start")
      case True
      from Cons.IH [OF xs, of out] obtain added where
        "GetBuffersInRange_loop xs start end_ts out = (False, out @ added)"
        "set added \<subseteq> set xs" "list_all (overlaps start end_ts) added"
        by blast
      with b False True show ?thesis by auto
    next
      case skip: False
      from Cons.IH [OF xs, of "out @ [b]"] obtain added where
        a: "GetBuffersInRange_loop xs start end_ts (out @ [b]) = (False, (out @ [b]) @ added)"
        "set added \<subseteq> set xs" "list_all (overlaps start end_ts) added"
        by blast
      have "GetBuffersInRange_loop (b # xs) start end_ts out = (False, out @ (b # added))"
        using b False skip a(1) by simp
      moreover have "set (b # added) \<subseteq> set (b # xs)"
        using a(2) by auto
      moreover have "list_all (overlaps start end_ts) (b # added)"
        using a(3) False skip by (simp add: overlaps_def)
      ultimately show ?thesis by blast
    qed
  qed
qed

lemma KeyframeBeforeTimestamp_returns:
  assumes "range_wf r" and "buffers r \<noteq> []"
  shows "KeyframeBeforeTimestamp d r ts \<noteq> None"
proof -
  have m: "keyframe_map r \<noteq> []"
    using range_wf_first_key_frame(2) [OF assms] .
  have "lower_bound (keyframe_map r) ts \<le> length (keyframe_map r)"
    by (simp add: lower_bound_def length_takeWhile_le)
  with m have "GetFirstKeyframeAtOrBefore r ts < length (keyframe_map r)"
    by (auto simp add: GetFirstKeyframeAtOrBefore_def Let_def)
  moreover have "outside_range d r ts \<noteq> None"
  proof -
    from assms(2) obtain b bs where "buffers r = b # bs"
      by (cases "buffers r") auto
    then show ?thesis
      by (auto simp add: outside_range_def GetStartTimestamp_def GetBufferedEndTimestamp_def
          Let_def)
  qed
  ultimately show ?thesis
    by (auto simp add: KeyframeBeforeTimestamp_def Let_def split: option.split bool.split)
qed

text \<open>
  C10. On a range whose frames all have a set, strictly positive duration (and which satisfies
  the invariant and has frames, so that the call returns), \<^verbatim>\<open>GetBuffersInRange\<close> appends to the
  output queue only frames of the range that overlap the queried interval, and it returns
  success exactly when it appended at least one frame; when no frame of the range overlaps the
  interval it returns failure, not success with an empty result.
\<close>

theorem GetBuffersInRange_success_iff_appended:
  assumes "list_all has_duration (buffers r)" and "range_wf r" and "buffers r \<noteq> []"
  shows "\<exists>ok added.
           GetBuffersInRange d r start end_ts out = Some (ok, out @ added)
           \<and> ok = (added \<noteq> [])
           \<and> set added \<subseteq> set (buffers r)
           \<and> list_all (overlaps start end_ts) added
           \<and> (list_all (\<lambda>b. \<not> overlaps start end_ts b) (buffers r) \<longrightarrow> \<not> ok)"
proof -
  obtain first_timestamp where first: "KeyframeBeforeTimestamp d r start = Some first_timestamp"
    using KeyframeBeforeTimestamp_returns [OF assms(2,3), of d start] by auto
  show ?thesis
  proof (cases "first_timestamp = kNoDecodeTimestamp")
    case True
    then have "GetBuffersInRange d r start end_ts out = Some (False, out @ [])"
      by (simp add: GetBuffersInRange_def first)
    then show ?thesis by (intro exI [of _ False] exI [of _ "[]"]) simp
  next
    case False
    define xs where "xs = drop (GetBufferItrAt r first_timestamp False) (buffers r)"
    have "list_all has_duration xs"
      using assms(1) by (auto simp add: xs_def list_all_iff dest: in_set_dropD)
    from GetBuffersInRange_loop_durations [OF this, of start end_ts out] obtain added where
      added: "GetBuffersInRange_loop xs start end_ts out = (False, out @ added)"
      "set added \<subseteq> set xs" "list_all (overlaps start end_ts) added"
      by blast
    have result: "GetBuffersInRange d r start end_ts out = Some (added \<noteq> [], out @ added)"
      using False added(1)
      by (simp add: GetBuffersInRange_def first xs_def [symmetric])
    have sub: "set added \<subseteq> set (buffers r)"
      using added(2) by (auto simp add: xs_def dest: in_set_dropD)
    have "added = []" if "list_all (\<lambda>b. \<not> overlaps start end_ts b) (buffers r)"
    proof (cases added)
      case Nil
      then show ?thesis .
    next
      case (Cons b bs)
      with sub added(3) have "b \<in> set (buffers r)" "overlaps start end_ts b" by auto
      with that show ?thesis by (auto simp add: list_all_iff)
    qed
    with result sub added(3) show ?thesis by blast
  qed
qed

lemma example_range_durations:
  "list_all has_duration (buffers example_range)"
  by (simp add: has_duration_def example_range_def example_frame_def kNoTimestamp_def)

theorem GetBuffersInRange_success_iff_appended_witness:
  "list_all has_duration (buffers example_range) \<and> range_wf example_range
   \<and> buffers example_range \<noteq> []
   \<and> GetBuffersInRange 0 example_range 5 25 []
       = Some (True, [example_frame 0 0 10 True, example_frame 10 10 10 False,
                      example_frame 20 20 10 True])
   \<and> list_all (\<lambda>b. \<not> overlaps 100 200 b) (buffers example_range)
   \<and> (\<exists>ok added.
         GetBuffersInRange 0 example_range 100 200 [] = Some (ok, [] @ added)
         \<and> ok = (added \<noteq> []) \<and> \<not> ok)"
proof -
  have outside: "list_all (\<lambda>b. \<not> overlaps 100 200 b) (buffers example_range)"
    by (simp add: overlaps_def example_range_def example_frame_def)
  have inside: "GetBuffersInRange 0 example_range 5 25 []
       = Some (True, [example_frame 0 0 10 True, example_frame 10 10 10 False,
                      example_frame 20 20 10 True])"
    by (simp add: GetBuffersInRange_def KeyframeBeforeTimestamp_def example_range_def
        example_frame_def range_defs)
  show ?thesis
    using GetBuffersInRange_success_iff_appended
            [OF example_range_durations example_range_wf(1,2), of 0 100 200 "[]"]
      outside inside example_range_durations example_range_wf(1,2)
    by blast
qed


subsection \<open>Splitting a range and appending the halves\<close>















end
